theory Spec2Isabelle
  imports Main "HOL-Library.Word"
begin

unbundle bit_operations_syntax

section \<open>Timer builder of the history service (service/history/timerBuilder.go)\<close>

subsection \<open>Machine integers and constants\<close>

text \<open>
  Go's \<open>int64\<close> and \<open>int32\<close> are 64-bit and 32-bit words. Comparisons in the
  source are signed, so they are written with \<open>\<le>s\<close> and \<open><s\<close>; the bit
  operations act on the two's complement representation.
\<close>

type_synonym int64 = "64 word"
type_synonym int32 = "32 word"

text \<open>\<open>SequenceID int64\<close>: visibility time stamp plus sequence number.\<close>

type_synonym SequenceID = "64 word"

definition MaxInt64 :: int64 where
  "MaxInt64 = 0x7FFFFFFFFFFFFFFF"

definition TimerQueueSeqNumBits :: nat where
  "TimerQueueSeqNumBits = 26"

definition TimerQueueSeqNumBitmask :: int64 where
  "TimerQueueSeqNumBitmask = push_bit TimerQueueSeqNumBits 1 - 1"

text \<open>\<open>math.MaxInt64 &^ TimerQueueSeqNumBitmask\<close>: Go's \<open>&^\<close> is AND NOT.\<close>

definition TimerQueueTimeStampBitmask :: int64 where
  "TimerQueueTimeStampBitmask = MaxInt64 AND NOT TimerQueueSeqNumBitmask"

definition SeqNumMax :: int64 where
  "SeqNumMax = MaxInt64 AND TimerQueueSeqNumBitmask"

definition MinTimerKey :: SequenceID where
  "MinTimerKey = - 1"

definition MaxTimerKey :: SequenceID where
  "MaxTimerKey = MaxInt64"

definition DefaultScheduleToStartActivityTimeoutInSecs :: int32 where
  "DefaultScheduleToStartActivityTimeoutInSecs = 10"

definition DefaultScheduleToCloseActivityTimeoutInSecs :: int32 where
  "DefaultScheduleToCloseActivityTimeoutInSecs = 10"

definition DefaultStartToCloseActivityTimeoutInSecs :: int32 where
  "DefaultStartToCloseActivityTimeoutInSecs = 10"

definition emptyTimerID :: int64 where
  "emptyTimerID = - 1"

subsection \<open>The sequence key codec\<close>

definition ConstructTimerKey :: "int64 \<Rightarrow> int64 \<Rightarrow> SequenceID" where
  "ConstructTimerKey expiryTime seqNum =
     (expiryTime AND TimerQueueTimeStampBitmask) OR (seqNum AND TimerQueueSeqNumBitmask)"

definition DeconstructTimerKey :: "SequenceID \<Rightarrow> int64 \<times> int64" where
  "DeconstructTimerKey key =
     (key AND TimerQueueTimeStampBitmask, key AND TimerQueueSeqNumBitmask)"

subsection \<open>Tasks, timer details and the builder\<close>

text \<open>
  The task structs of the persistence package are used here through their fields
  \<open>TaskID\<close>, \<open>TimeoutType\<close> and \<open>EventID\<close> and the interface methods
  \<open>GetType\<close> and \<open>GetTaskID\<close>. The interface \<open>persistence.Task\<close> is the sum
  of the three structs; a nil task is \<open>None\<close>. The timeout kinds are the four
  values of the enum \<open>TimeoutType\<close>; the task keeps the enum value where the
  source stores its number.
\<close>

datatype TimeoutType = START_TO_CLOSE | SCHEDULE_TO_START | SCHEDULE_TO_CLOSE | HEARTBEAT

datatype TaskType = TaskTypeDecisionTimeout | TaskTypeActivityTimeout | TaskTypeUserTimer

datatype Task =
    DecisionTimeoutTask int64 int64
  | ActivityTimeoutTask int64 TimeoutType int64
  | UserTimerTask int64 int64

fun GetType :: "Task \<Rightarrow> TaskType" where
  "GetType (DecisionTimeoutTask taskID eventID) = TaskTypeDecisionTimeout"
| "GetType (ActivityTimeoutTask taskID timeoutType eventID) = TaskTypeActivityTimeout"
| "GetType (UserTimerTask taskID eventID) = TaskTypeUserTimer"

fun GetTaskID :: "Task \<Rightarrow> int64" where
  "GetTaskID (DecisionTimeoutTask taskID eventID) = taskID"
| "GetTaskID (ActivityTimeoutTask taskID timeoutType eventID) = taskID"
| "GetTaskID (UserTimerTask taskID eventID) = taskID"

record timerDetails =
  SequenceID :: SequenceID
  TimerTask :: Task
  TaskCreated :: bool

text \<open>
  \<open>ActivityInfo\<close> and \<open>TimerInfo\<close> of the persistence package, with the fields
  the builder writes. \<open>ExpiryTime\<close> is a \<open>time.Time\<close> in the source; the builder
  reads it only through \<open>UnixNano()\<close>, so the model keeps that number of
  nanoseconds.
\<close>

record ActivityInfo =
  ScheduleID :: int64
  StartedID :: int64
  ActivityID :: string
  ScheduleToStartTimeout :: int32
  ScheduleToCloseTimeout :: int32
  StartToCloseTimeout :: int32
  HeartbeatTimeout :: int32
  CancelRequested :: bool
  CancelRequestID :: int64

record TimerInfo =
  TimerID :: string
  ExpiryTime :: int64
  StartedID :: int64
  TaskID :: int64

text \<open>
  The interface \<open>SequenceNumberGenerator\<close> has two implementations. The local one
  holds a counter and \<open>NextSeq\<close> returns the incremented counter
  (\<open>atomic.AddInt64(&l.counter, 1)\<close>). The shard one asks the shard context, which
  is outside this file: the context is the sequence of numbers it hands out, and the
  generator remembers how many it has taken.
\<close>

datatype SequenceNumberGenerator =
    localSeqNumGenerator int64
  | shardSeqNumGenerator "nat \<Rightarrow> int64" nat

fun NextSeq :: "SequenceNumberGenerator \<Rightarrow> int64 \<times> SequenceNumberGenerator" where
  "NextSeq (localSeqNumGenerator counter) = (counter + 1, localSeqNumGenerator (counter + 1))"
| "NextSeq (shardSeqNumGenerator context n) = (context n, shardSeqNumGenerator context (Suc n))"

text \<open>
  The builder. The logger has no effect on results and is left out. The map
  \<open>pendingUserTimers\<close> holds pointers to the \<open>TimerInfo\<close> objects of the mutable
  state; the model holds the objects by value and repeats a write through such a
  pointer at every place that shares the object.
\<close>

record timerBuilder =
  timers :: "timerDetails list"
  pendingUserTimers :: "SequenceID \<rightharpoonup> TimerInfo"
  seqNumGen :: SequenceNumberGenerator
  localSeqNumGen :: SequenceNumberGenerator

definition newTimerBuilder :: "SequenceNumberGenerator \<Rightarrow> timerBuilder" where
  "newTimerBuilder seqNumGen' =
     \<lparr>timers = [], pendingUserTimers = Map.empty, seqNumGen = seqNumGen',
      localSeqNumGen = localSeqNumGenerator 1\<rparr>"

definition AllTimers :: "timerBuilder \<Rightarrow> timerDetails list" where
  "AllTimers tb = timers tb"

definition UserTimer :: "timerBuilder \<Rightarrow> SequenceID \<Rightarrow> TimerInfo option" where
  "UserTimer tb taskID = pendingUserTimers tb taskID"

definition IsTimerExpired :: "timerBuilder \<Rightarrow> timerDetails \<Rightarrow> int64 \<Rightarrow> bool" where
  "IsTimerExpired tb td referenceTime =
     (let (expiry, seqNum) = DeconstructTimerKey (SequenceID td) in expiry \<le>s referenceTime)"


subsection \<open>The mutable state of a workflow\<close>

text \<open>
  The builder works on a \<open>mutableStateBuilder\<close>, which it reads and writes through
  \<open>isTimerRunning\<close>, \<open>UpdatePendingTimers\<close>, \<open>UpdatePendingActivity\<close> and
  the field \<open>pendingTimerInfoIDs\<close>. Their source is outside timerBuilder.go, so
  the three operations follow the specification.
\<close>

record mutableStateBuilder =
  pendingActivityInfoIDs :: "int64 \<rightharpoonup> ActivityInfo"
  pendingTimerInfoIDs :: "string \<rightharpoonup> TimerInfo"

text \<open>
  Modelled from the spec: \<open>isTimerRunning\<close> of the mutable state is missing. The
  spec keeps a TimerInfo "keyed by timerID (string) within a workflow's mutable-state
  map" and speaks of a timerID that "already has a pending TimerInfo": the lookup in
  that map, \<open>Some\<close> for a running timer.
\<close>

definition isTimerRunning :: "string \<Rightarrow> mutableStateBuilder \<Rightarrow> TimerInfo option" where
  "isTimerRunning timerID msBuilder = pendingTimerInfoIDs msBuilder timerID"

text \<open>
  Modelled from the spec: \<open>UpdatePendingTimers\<close> of the mutable state is missing.
  The spec "stores a new TimerInfo ... into the mutable-state snapshot" under its
  timerID.
\<close>

definition UpdatePendingTimers ::
  "string \<Rightarrow> TimerInfo \<Rightarrow> mutableStateBuilder \<Rightarrow> mutableStateBuilder" where
  "UpdatePendingTimers timerID ti msBuilder =
     msBuilder\<lparr>pendingTimerInfoIDs := (pendingTimerInfoIDs msBuilder)(timerID \<mapsto> ti)\<rparr>"

text \<open>
  Modelled from the spec: \<open>UpdatePendingActivity\<close> of the mutable state is missing.
  The spec keeps an ActivityInfo "keyed by scheduleID (int64) within a workflow's
  mutable-state map" and "records a new ActivityInfo into the caller's mutable-state
  snapshot".
\<close>

definition UpdatePendingActivity ::
  "int64 \<Rightarrow> ActivityInfo \<Rightarrow> mutableStateBuilder \<Rightarrow> mutableStateBuilder" where
  "UpdatePendingActivity scheduleID ai msBuilder =
     msBuilder\<lparr>pendingActivityInfoIDs := (pendingActivityInfoIDs msBuilder)(scheduleID \<mapsto> ai)\<rparr>"

subsection \<open>Creating tasks\<close>

text \<open>
  Modelled from the spec: \<open>common.AddSecondsToBaseTime\<close> is missing. The spec
  "computes absolute expiry = now + fireAfterSeconds"; the base time is in
  nanoseconds, so the seconds are scaled, in 64-bit arithmetic.
\<close>

definition AddSecondsToBaseTime :: "int64 \<Rightarrow> int64 \<Rightarrow> int64" where
  "AddSecondsToBaseTime baseTimeInNanoSec durationInSeconds =
     baseTimeInNanoSec + durationInSeconds * 1000000000"

text \<open>
  Every function that reads the clock takes the reading \<open>now\<close>, the value of
  \<open>time.Now().UnixNano()\<close>, as its first argument. Functions of the builder take
  the builder last and return it updated.
\<close>

definition createDecisionTimeoutTask ::
  "int64 \<Rightarrow> int32 \<Rightarrow> int64 \<Rightarrow> timerBuilder \<Rightarrow> Task \<times> timerBuilder" where
  "createDecisionTimeoutTask now fireTimeOut eventID tb =
     (let expiryTime = AddSecondsToBaseTime now (scast fireTimeOut);
          (seq, gen) = NextSeq (seqNumGen tb);
          seqID = ConstructTimerKey expiryTime seq
      in (DecisionTimeoutTask seqID eventID, tb\<lparr>seqNumGen := gen\<rparr>))"

definition createActivityTimeoutTask ::
  "int64 \<Rightarrow> int32 \<Rightarrow> TimeoutType \<Rightarrow> int64 \<Rightarrow> timerBuilder \<Rightarrow> Task \<times> timerBuilder" where
  "createActivityTimeoutTask now fireTimeOut timeoutType eventID tb =
     (let expiryTime = AddSecondsToBaseTime now (scast fireTimeOut);
          (seq, gen) = NextSeq (seqNumGen tb);
          seqID = ConstructTimerKey expiryTime seq
      in (ActivityTimeoutTask seqID timeoutType eventID, tb\<lparr>seqNumGen := gen\<rparr>))"

definition createUserTimerTask :: "int64 \<Rightarrow> int64 \<Rightarrow> timerBuilder \<Rightarrow> Task \<times> timerBuilder" where
  "createUserTimerTask expiryTime startedEventID tb =
     (let (seq, gen) = NextSeq (seqNumGen tb);
          seqID = ConstructTimerKey expiryTime seq
      in (UserTimerTask seqID startedEventID, tb\<lparr>seqNumGen := gen\<rparr>))"

subsection \<open>The pending timer index\<close>

text \<open>
  \<open>sort.Search n f\<close> of Go's library: binary search for the smallest index in
  \<open>[0, n)\<close> at which \<open>f\<close> holds, \<open>n\<close> if there is none, for an \<open>f\<close> that is
  false on a prefix and true on the rest. The loop is
  \<^verbatim>\<open>i, j := 0, n; for i < j { h := int(uint(i+j) >> 1); if !f(h) { i = h + 1 } else { j = h } }; return i\<close>.
\<close>

function Search_loop :: "(nat \<Rightarrow> bool) \<Rightarrow> nat \<Rightarrow> nat \<Rightarrow> nat" where
  "Search_loop f i j =
     (if i < j then
        (let h = (i + j) div 2
         in if \<not> f h then Search_loop f (h + 1) j else Search_loop f i h)
      else i)"
  by pat_completeness auto
termination
  by (relation "measure (\<lambda>(f, i, j). j - i)") auto

definition Search :: "nat \<Rightarrow> (nat \<Rightarrow> bool) \<Rightarrow> nat" where
  "Search n f = Search_loop f 0 n"

text \<open>
  The list \<open>timers\<close> is kept in ascending order of \<open>SequenceID\<close> (the order of
  \<open>Less\<close>, \<open>t[i].SequenceID < t[j].SequenceID\<close>, with equal keys allowed).
\<close>

definition timersSorted :: "timerDetails list \<Rightarrow> bool" where
  "timersSorted ts = sorted_wrt (\<lambda>a b. SequenceID a \<le>s SequenceID b) ts"

definition insertTimer :: "timerDetails \<Rightarrow> timerBuilder \<Rightarrow> bool \<times> timerBuilder" where
  "insertTimer td tb =
     (let size = length (timers tb);
          i = Search size (\<lambda>i. SequenceID td \<le>s SequenceID (timers tb ! i))
      in (i = 0,
          tb\<lparr>timers := (if i = size then timers tb @ [td]
                        else take i (timers tb) @ ([td] @ drop i (timers tb)))\<rparr>))"

definition createTimer ::
  "int64 \<Rightarrow> Task \<Rightarrow> bool \<Rightarrow> timerBuilder \<Rightarrow> (timerDetails \<times> bool) \<times> timerBuilder" where
  "createTimer expires task taskCreated tb =
     (let (seqNum, gen) = NextSeq (localSeqNumGen tb);
          timer = \<lparr>SequenceID = ConstructTimerKey expires seqNum, TimerTask = task,
                   TaskCreated = taskCreated\<rparr>;
          (isFirst, tb') = insertTimer timer (tb\<lparr>localSeqNumGen := gen\<rparr>)
      in ((timer, isFirst), tb'))"

definition loadUserTimer ::
  "int64 \<Rightarrow> Task \<Rightarrow> bool \<Rightarrow> timerBuilder \<Rightarrow> (timerDetails \<times> bool) \<times> timerBuilder" where
  "loadUserTimer expires task taskCreated tb = createTimer expires task taskCreated tb"

text \<open>
  \<open>createNewTask\<close> switches on \<open>task.GetType()\<close> and then asserts the type
  \<open>*UserTimerTask\<close>; a task of type \<open>TaskTypeUserTimer\<close> always is one, so the
  assertion cannot fail. Every other type falls through to \<open>return nil\<close>.
\<close>

definition createNewTask :: "timerDetails \<Rightarrow> timerBuilder \<Rightarrow> Task option \<times> timerBuilder" where
  "createNewTask td tb =
     (let task = TimerTask td;
          (expiry, seqNum) = DeconstructTimerKey (SequenceID td)
      in case GetType task of
           TaskTypeUserTimer \<Rightarrow>
             (case task of
                UserTimerTask taskID eventID \<Rightarrow>
                  (let (t, tb') = createUserTimerTask expiry eventID tb in (Some t, tb'))
              | _ \<Rightarrow> (None, tb))
         | _ \<Rightarrow> (None, tb))"

definition firstTimer :: "timerBuilder \<Rightarrow> Task option \<times> timerBuilder" where
  "firstTimer tb =
     (case timers tb of
        [] \<Rightarrow> (None, tb)
      | td # rest \<Rightarrow> if \<not> TaskCreated td then createNewTask td tb else (None, tb))"

text \<open>
  \<open>LoadUserTimers\<close> ranges over the map \<open>pendingTimerInfoIDs\<close>. Go visits the
  entries of a map in an order it does not fix, so the order of the visit is the
  argument \<open>order\<close>, a list of the keys; a run of the source corresponds to a list
  that holds every key of the map once.
\<close>

fun LoadUserTimers_loop ::
  "mutableStateBuilder \<Rightarrow> string list \<Rightarrow> timerBuilder \<Rightarrow> timerBuilder" where
  "LoadUserTimers_loop msBuilder [] tb = tb"
| "LoadUserTimers_loop msBuilder (k # ks) tb =
     (case pendingTimerInfoIDs msBuilder k of
        None \<Rightarrow> LoadUserTimers_loop msBuilder ks tb
      | Some v \<Rightarrow>
          (let ((td, isFirst), tb') =
                 loadUserTimer (ExpiryTime v) (UserTimerTask 0 (StartedID v))
                   (TaskID v \<noteq> emptyTimerID) tb
           in LoadUserTimers_loop msBuilder ks
                (tb'\<lparr>pendingUserTimers := (pendingUserTimers tb')(SequenceID td \<mapsto> v)\<rparr>)))"

definition LoadUserTimers ::
  "string list \<Rightarrow> mutableStateBuilder \<Rightarrow> timerBuilder \<Rightarrow> timerBuilder" where
  "LoadUserTimers order msBuilder tb =
     LoadUserTimers_loop msBuilder order (tb\<lparr>timers := [], pendingUserTimers := Map.empty\<rparr>)"

subsection \<open>Adding timers\<close>

definition AddActivityTimeoutTask ::
  "int64 \<Rightarrow> int64 \<Rightarrow> TimeoutType \<Rightarrow> int32 \<Rightarrow> timerBuilder \<Rightarrow> Task option \<times> timerBuilder" where
  "AddActivityTimeoutTask now scheduleID timeoutType fireTimeout tb =
     (if fireTimeout \<le>s 0 then (None, tb)
      else (let (timeOutTask, tb') = createActivityTimeoutTask now fireTimeout timeoutType scheduleID tb
            in (Some timeOutTask, tb')))"

text \<open>
  The attributes of an ActivityTaskScheduled event, as the generated getters return
  them. \<open>emptyEventID\<close> is a constant of the package declared outside this file;
  the function takes it as an argument.
\<close>

record ActivityTaskScheduledEventAttributes =
  ActivityId :: string
  ScheduleToCloseTimeoutSeconds :: int32
  ScheduleToStartTimeoutSeconds :: int32
  StartToCloseTimeoutSeconds :: int32
  HeartbeatTimeoutSeconds :: int32

definition AddScheduleToStartActivityTimeout ::
  "int64 \<Rightarrow> int64 \<Rightarrow> int64 \<Rightarrow> ActivityTaskScheduledEventAttributes \<Rightarrow>
   timerBuilder \<times> mutableStateBuilder \<Rightarrow> Task option \<times> timerBuilder \<times> mutableStateBuilder" where
  "AddScheduleToStartActivityTimeout now emptyEventID scheduleID scheduleEvent st =
     (let (tb, msBuilder) = st;
          scheduleToStartTimeout =
            (if ScheduleToStartTimeoutSeconds scheduleEvent \<le>s 0
             then DefaultScheduleToStartActivityTimeoutInSecs
             else ScheduleToStartTimeoutSeconds scheduleEvent);
          scheduleToCloseTimeout =
            (if ScheduleToCloseTimeoutSeconds scheduleEvent \<le>s 0
             then DefaultScheduleToCloseActivityTimeoutInSecs
             else ScheduleToCloseTimeoutSeconds scheduleEvent);
          startToCloseTimeout =
            (if StartToCloseTimeoutSeconds scheduleEvent \<le>s 0
             then DefaultStartToCloseActivityTimeoutInSecs
             else StartToCloseTimeoutSeconds scheduleEvent);
          heartbeatTimeout = HeartbeatTimeoutSeconds scheduleEvent;
          (t, tb') = AddActivityTimeoutTask now scheduleID SCHEDULE_TO_START scheduleToStartTimeout tb;
          msBuilder' = UpdatePendingActivity scheduleID
            \<lparr>ScheduleID = scheduleID,
             ActivityInfo.StartedID = emptyEventID,
             ActivityID = ActivityId scheduleEvent,
             ScheduleToStartTimeout = scheduleToStartTimeout,
             ScheduleToCloseTimeout = scheduleToCloseTimeout,
             StartToCloseTimeout = startToCloseTimeout,
             HeartbeatTimeout = heartbeatTimeout,
             CancelRequested = False,
             CancelRequestID = emptyEventID\<rparr> msBuilder
      in (t, tb', msBuilder'))"

text \<open>
  The two errors of \<open>AddUserTimer\<close> are \<open>fmt.Errorf\<close> values; the duplicate one
  carries the timer ID and the old timer. \<open>NilTimerInfo\<close> stands for the panic of
  the write \<open>ti.TaskID = ...\<close> when the lookup in \<open>pendingUserTimers\<close> finds
  nothing, and \<open>IndexOutOfRange\<close> for the panic of \<open>tb.timers[0]\<close> on an empty
  list.
\<close>

datatype error =
    InvalidUserTimeout
  | TimerAlreadyExists string TimerInfo
  | NilTimerInfo
  | IndexOutOfRange

text \<open>
  \<open>time.Now().Add(time.Duration(fireTimeout) * time.Second)\<close>, read back by
  \<open>LoadUserTimers\<close> through \<open>UnixNano()\<close>: the clock reading plus the timeout in
  nanoseconds, in 64-bit arithmetic. The write \<open>ti.TaskID = ...\<close> goes through the
  pointer that \<open>pendingUserTimers\<close> shares with the mutable state; the call
  \<open>UpdatePendingTimers(ti.TimerID, ti)\<close> that follows stores the same object under
  its own timer ID.
\<close>

definition AddUserTimer ::
  "int64 \<Rightarrow> string list \<Rightarrow> string \<Rightarrow> int64 \<Rightarrow> int64 \<Rightarrow> timerBuilder \<times> mutableStateBuilder \<Rightarrow>
   (error + Task option) \<times> timerBuilder \<times> mutableStateBuilder" where
  "AddUserTimer now order timerID fireTimeout startedID st =
     (let (tb, msBuilder) = st in
      if fireTimeout <s 0 then (Inl InvalidUserTimeout, tb, msBuilder)
      else case isTimerRunning timerID msBuilder of
        Some ti \<Rightarrow> (Inl (TimerAlreadyExists timerID ti), tb, msBuilder)
      | None \<Rightarrow>
          (let expiryTime = now + fireTimeout * 1000000000;
               msBuilder1 = UpdatePendingTimers timerID
                 \<lparr>TimerID = timerID, ExpiryTime = expiryTime, StartedID = startedID,
                  TaskID = emptyTimerID\<rparr> msBuilder;
               tb1 = LoadUserTimers order msBuilder1 tb;
               (timerTask, tb2) = firstTimer tb1
           in case timerTask of
                None \<Rightarrow> (Inr None, tb2, msBuilder1)
              | Some task \<Rightarrow>
                  (case timers tb2 of
                     [] \<Rightarrow> (Inl IndexOutOfRange, tb2, msBuilder1)
                   | td # rest \<Rightarrow>
                       (case pendingUserTimers tb2 (SequenceID td) of
                          None \<Rightarrow> (Inl NilTimerInfo, tb2, msBuilder1)
                        | Some ti \<Rightarrow>
                            (let ti' = ti\<lparr>TaskID := GetTaskID task\<rparr>
                             in (Inr (Some task),
                                 tb2\<lparr>pendingUserTimers := (pendingUserTimers tb2)(SequenceID td \<mapsto> ti')\<rparr>,
                                 UpdatePendingTimers (TimerID ti') ti' msBuilder1))))))"

subsection \<open>Sequences of calls of AddUserTimer\<close>

text \<open>
  One call of \<open>AddUserTimer\<close>: the clock reading, the order in which the range of
  \<open>LoadUserTimers\<close> visits the keys, and the three arguments of the source.
\<close>

record addUserTimerCall =
  callNow :: int64
  callOrder :: "string list"
  callTimerID :: string
  callFireTimeout :: int64
  callStartedID :: int64

definition AddUserTimer_call ::
  "addUserTimerCall \<Rightarrow> timerBuilder \<times> mutableStateBuilder \<Rightarrow>
   (error + Task option) \<times> timerBuilder \<times> mutableStateBuilder" where
  "AddUserTimer_call c st =
     AddUserTimer (callNow c) (callOrder c) (callTimerID c) (callFireTimeout c) (callStartedID c) st"

text \<open>
  Repeated calls on one builder and one mutable state; the run stops at the first
  call that returns an error.
\<close>

fun AddUserTimers ::
  "addUserTimerCall list \<Rightarrow> timerBuilder \<times> mutableStateBuilder \<Rightarrow>
   error + (timerBuilder \<times> mutableStateBuilder)" where
  "AddUserTimers [] st = Inr st"
| "AddUserTimers (c # cs) st =
     (case AddUserTimer_call c st of
        (Inl e, st') \<Rightarrow> Inl e
      | (Inr t, st') \<Rightarrow> AddUserTimers cs st')"

text \<open>
  A range over a Go map visits every key once: \<open>order\<close> is a list of the keys
  without repetition. In a call that stores a new timer, the range of
  \<open>LoadUserTimers\<close> runs over the keys of the mutable state and the new timer ID.
\<close>

definition rangesOver :: "string list \<Rightarrow> string set \<Rightarrow> bool" where
  "rangesOver order keys \<longleftrightarrow> distinct order \<and> set order = keys"

fun rangeOrders :: "addUserTimerCall list \<Rightarrow> timerBuilder \<times> mutableStateBuilder \<Rightarrow> bool" where
  "rangeOrders [] st = True"
| "rangeOrders (c # cs) st =
     (rangesOver (callOrder c) (insert (callTimerID c) (dom (pendingTimerInfoIDs (snd st))))
      \<and> (case AddUserTimer_call c st of
           (Inl e, st') \<Rightarrow> True
         | (Inr t, st') \<Rightarrow> rangeOrders cs st'))"

text \<open>
  A mutable state stores every TimerInfo under its own timer ID, as \<open>AddUserTimer\<close>
  does. On such a state the object behind a pointer of \<open>pendingUserTimers\<close> is the
  entry under \<open>ti.TimerID\<close>, and the model by value agrees with the source.
\<close>

definition keyedByTimerID :: "mutableStateBuilder \<Rightarrow> bool" where
  "keyedByTimerID ms \<longleftrightarrow> (\<forall>k ti. pendingTimerInfoIDs ms k = Some ti \<longrightarrow> TimerID ti = k)"

text \<open>The time stamp field of the key of a timer: its expiry, masked.\<close>

definition expiryField :: "TimerInfo \<Rightarrow> int64" where
  "expiryField ti = ExpiryTime ti AND TimerQueueTimeStampBitmask"

text \<open>The time stamp field of the expiry that a call computes.\<close>

definition callExpiryField :: "addUserTimerCall \<Rightarrow> int64" where
  "callExpiryField c =
     (callNow c + callFireTimeout c * 1000000000) AND TimerQueueTimeStampBitmask"

text \<open>
  The first call of a sequence has a time stamp field strictly below that of every
  later call; and the opposite case, some later call has a field strictly below that
  of the first.
\<close>

fun firstIsLeast :: "addUserTimerCall list \<Rightarrow> bool" where
  "firstIsLeast [] = True"
| "firstIsLeast (c # cs) = (\<forall>d\<in>set cs. callExpiryField c <s callExpiryField d)"

fun laterIsBelow :: "addUserTimerCall list \<Rightarrow> bool" where
  "laterIsBelow [] = False"
| "laterIsBelow (c # cs) = (\<exists>d\<in>set cs. callExpiryField d <s callExpiryField c)"

text \<open>
  The timer stored under \<open>k0\<close>, with the value \<open>v0\<close>, is the only pending timer
  with a persisted task, and its time stamp field is below that of every other
  pending timer. \<open>onlyEarliestHasTask\<close>: some timer is; \<open>twoHaveTasks\<close>: two
  different pending timers have a persisted task.
\<close>

definition hasOnlyTask :: "mutableStateBuilder \<Rightarrow> string \<Rightarrow> TimerInfo \<Rightarrow> bool" where
  "hasOnlyTask ms k0 v0 \<longleftrightarrow>
     pendingTimerInfoIDs ms k0 = Some v0 \<and> TaskID v0 \<noteq> emptyTimerID
     \<and> (\<forall>k v. pendingTimerInfoIDs ms k = Some v \<and> k \<noteq> k0 \<longrightarrow>
           TaskID v = emptyTimerID \<and> expiryField v0 <s expiryField v)"

definition onlyEarliestHasTask :: "mutableStateBuilder \<Rightarrow> bool" where
  "onlyEarliestHasTask ms \<longleftrightarrow> (\<exists>k0 v0. hasOnlyTask ms k0 v0)"

definition twoHaveTasks :: "mutableStateBuilder \<Rightarrow> bool" where
  "twoHaveTasks ms \<longleftrightarrow>
     (\<exists>k k' v v'. k \<noteq> k' \<and> pendingTimerInfoIDs ms k = Some v \<and> pendingTimerInfoIDs ms k' = Some v'
        \<and> TaskID v \<noteq> emptyTimerID \<and> TaskID v' \<noteq> emptyTimerID)"

text \<open>
  The builder draws the numbers of its index from a local counter, as every builder
  made by \<open>newTimerBuilder\<close> does.
\<close>

definition usesLocalCounter :: "timerBuilder \<Rightarrow> bool" where
  "usesLocalCounter tb =
     (case localSeqNumGen tb of
        localSeqNumGenerator counter \<Rightarrow> True
      | shardSeqNumGenerator context n \<Rightarrow> False)"

text \<open>
  The effect of one successful call \<open>c\<close> on the mutable state \<open>ms\<close>, with the task
  \<open>r\<close> it returns and the mutable state \<open>ms'\<close> it leaves. The new TimerInfo is
  stored with the empty sentinel. If no task is returned, nothing else changes, and a
  pending timer with the least time stamp field has a task already. If a task is
  returned, one pending timer that had the empty sentinel and has the least time stamp
  field gets the task's ID, the task is a user timer task for that timer's expiry and
  started ID, and nothing else changes.
\<close>

definition callEffect ::
  "addUserTimerCall \<Rightarrow> mutableStateBuilder \<Rightarrow> Task option \<Rightarrow> mutableStateBuilder \<Rightarrow> bool" where
  "callEffect c ms r ms' \<longleftrightarrow>
     (let ms1 = UpdatePendingTimers (callTimerID c)
            \<lparr>TimerID = callTimerID c,
             ExpiryTime = callNow c + callFireTimeout c * 1000000000,
             StartedID = callStartedID c, TaskID = emptyTimerID\<rparr> ms
      in case r of
           None \<Rightarrow>
             ms' = ms1
             \<and> (\<exists>v\<in>ran (pendingTimerInfoIDs ms1). TaskID v \<noteq> emptyTimerID
                  \<and> (\<forall>u\<in>ran (pendingTimerInfoIDs ms1). expiryField v \<le>s expiryField u))
         | Some task \<Rightarrow>
             (\<exists>k ti seq. pendingTimerInfoIDs ms1 k = Some ti \<and> TaskID ti = emptyTimerID
                \<and> (\<forall>u\<in>ran (pendingTimerInfoIDs ms1). expiryField ti \<le>s expiryField u)
                \<and> task = UserTimerTask (ConstructTimerKey (ExpiryTime ti) seq) (StartedID ti)
                \<and> GetTaskID task \<noteq> emptyTimerID
                \<and> ms' = UpdatePendingTimers k (ti\<lparr>TaskID := GetTaskID task\<rparr>) ms1))"

text \<open>
  The invariant of the loop of \<open>LoadUserTimers\<close> over the mutable state \<open>ms\<close>,
  after the keys in \<open>V\<close> have been visited: the index is sorted; every entry of the
  index was built from a pending timer; the map \<open>pendingUserTimers\<close> has, for every
  entry of the index, a pending timer with the same time stamp field; and every
  visited timer has an entry with its time stamp field.
\<close>

definition indexInv :: "mutableStateBuilder \<Rightarrow> string set \<Rightarrow> timerBuilder \<Rightarrow> bool" where
  "indexInv ms V tb \<longleftrightarrow>
     timersSorted (timers tb)
   \<and> (\<forall>td\<in>set (timers tb). \<exists>v s e. v \<in> ran (pendingTimerInfoIDs ms)
          \<and> SequenceID td = ConstructTimerKey (ExpiryTime v) s
          \<and> TaskCreated td = (TaskID v \<noteq> emptyTimerID)
          \<and> TimerTask td = UserTimerTask 0 e)
   \<and> (\<forall>td\<in>set (timers tb). \<exists>v. pendingUserTimers tb (SequenceID td) = Some v
          \<and> v \<in> ran (pendingTimerInfoIDs ms)
          \<and> expiryField v = SequenceID td AND TimerQueueTimeStampBitmask)
   \<and> (\<forall>k\<in>V. \<forall>v. pendingTimerInfoIDs ms k = Some v \<longrightarrow>
          (\<exists>td\<in>set (timers tb). SequenceID td AND TimerQueueTimeStampBitmask = expiryField v))"

text \<open>
  The same loop with a local counter that stood at \<open>c0\<close> when the loop began: the
  \<open>j\<close>-th timer loaded has the sequence field of \<open>c0 + j\<close>, so that keys do not
  repeat, and \<open>pendingUserTimers\<close> maps the key of every entry of the index to the
  very timer the entry was built from.
\<close>

definition exactInv :: "mutableStateBuilder \<Rightarrow> int64 \<Rightarrow> timerBuilder \<Rightarrow> bool" where
  "exactInv ms c0 tb \<longleftrightarrow>
     timersSorted (timers tb)
   \<and> localSeqNumGen tb = localSeqNumGenerator (c0 + of_nat (length (timers tb)))
   \<and> (\<forall>td\<in>set (timers tb). \<exists>j. 1 \<le> j \<and> j \<le> length (timers tb)
          \<and> SequenceID td AND TimerQueueSeqNumBitmask = (c0 + of_nat j) AND TimerQueueSeqNumBitmask)
   \<and> (\<forall>td\<in>set (timers tb). \<exists>v. pendingUserTimers tb (SequenceID td) = Some v
          \<and> v \<in> ran (pendingTimerInfoIDs ms)
          \<and> SequenceID td AND TimerQueueTimeStampBitmask = expiryField v
          \<and> TaskCreated td = (TaskID v \<noteq> emptyTimerID)
          \<and> TimerTask td = UserTimerTask 0 (StartedID v))"

subsection \<open>Inputs of the worked examples\<close>

definition exTimer :: "int64 \<Rightarrow> timerDetails" where
  "exTimer k = \<lparr>SequenceID = k, TimerTask = UserTimerTask 0 1, TaskCreated = False\<rparr>"

definition exBuilder :: "timerDetails list \<Rightarrow> timerBuilder" where
  "exBuilder ts = (newTimerBuilder (localSeqNumGenerator 0))\<lparr>timers := ts\<rparr>"

definition ms_empty :: mutableStateBuilder where
  "ms_empty = \<lparr>pendingActivityInfoIDs = Map.empty, pendingTimerInfoIDs = Map.empty\<rparr>"

definition tb_new :: timerBuilder where
  "tb_new = newTimerBuilder (localSeqNumGenerator 0)"

text \<open>
  Timer \<open>a\<close> fires after two seconds, timer \<open>b\<close>, added after it, after one second.
  The second call ranges over the two keys in either order.
\<close>

definition call_a :: addUserTimerCall where
  "call_a = \<lparr>callNow = 0, callOrder = [''a''], callTimerID = ''a'', callFireTimeout = 2,
     callStartedID = 10\<rparr>"

definition call_b :: addUserTimerCall where
  "call_b = \<lparr>callNow = 0, callOrder = [''a'', ''b''], callTimerID = ''b'', callFireTimeout = 1,
     callStartedID = 11\<rparr>"

definition call_b' :: addUserTimerCall where
  "call_b' = \<lparr>callNow = 0, callOrder = [''b'', ''a''], callTimerID = ''b'', callFireTimeout = 1,
     callStartedID = 11\<rparr>"

text \<open>
  Timer \<open>c\<close> fires after one second, timer \<open>d\<close>, added after it, after two
  seconds.
\<close>

definition call_c :: addUserTimerCall where
  "call_c = \<lparr>callNow = 0, callOrder = [''c''], callTimerID = ''c'', callFireTimeout = 1,
     callStartedID = 12\<rparr>"

definition call_d :: addUserTimerCall where
  "call_d = \<lparr>callNow = 0, callOrder = [''d'', ''c''], callTimerID = ''d'', callFireTimeout = 2,
     callStartedID = 13\<rparr>"

text \<open>A mutable state in which timer \<open>c\<close> is pending and has its task.\<close>

definition info_c :: TimerInfo where
  "info_c = \<lparr>TimerID = ''c'', ExpiryTime = 1000000000, StartedID = 12, TaskID = 939524097\<rparr>"

definition ms_c :: mutableStateBuilder where
  "ms_c = \<lparr>pendingActivityInfoIDs = Map.empty, pendingTimerInfoIDs = [''c'' \<mapsto> info_c]\<rparr>"

definition exEvent :: ActivityTaskScheduledEventAttributes where
  "exEvent = \<lparr>ActivityId = ''act'', ScheduleToCloseTimeoutSeconds = - 1,
     ScheduleToStartTimeoutSeconds = 0, StartToCloseTimeoutSeconds = 30,
     HeartbeatTimeoutSeconds = 0\<rparr>"


section \<open>The mutable state store (common/persistence)\<close>

text \<open>
  The store is present in the sources only through its test suite,
  cassandraPersistence_test.go. The test fixes the fields of
  \<open>WorkflowExecutionInfo\<close> (\<open>copyWorkflowExecutionInfo\<close>), the fields of the create
  request and the errors that the calls return; the operations themselves follow the
  specification.
\<close>

datatype storeError = AlreadyStarted | ConditionFailed | ShardOwnershipLost | NotFound

datatype WorkflowState =
  WorkflowStateCreated | WorkflowStateRunning | WorkflowStateCompleted | WorkflowStateTerminated

text \<open>An execution is identified by its workflow ID and its run ID.\<close>

type_synonym WorkflowExecution = "string \<times> string"

record WorkflowExecutionInfo =
  WorkflowID :: string
  RunID :: string
  TaskList :: string
  History :: string
  ExecutionContext :: string
  State :: WorkflowState
  NextEventID :: int64
  LastProcessedEvent :: int64
  LastUpdatedTimestamp :: int64
  DecisionPending :: bool

text \<open>Entries of the transfer queue: task ID, task list and schedule ID.\<close>

datatype TransferTask =
    DecisionTask int64 string int64
  | ActivityTask int64 string int64

text \<open>
  Modelled from the spec: the state of the store is missing. The spec keeps, for one
  shard, the current RangeID, a shard-scoped sequence number for task IDs, the
  execution rows, the activity and timer infos of every execution, and the queues of
  transfer and timer tasks.
\<close>

record workflowStore =
  shardRangeID :: int64
  sequenceNumber :: int64
  executions :: "WorkflowExecution \<rightharpoonup> WorkflowExecutionInfo"
  activityInfos :: "WorkflowExecution \<Rightarrow> (int64 \<rightharpoonup> ActivityInfo)"
  timerInfos :: "WorkflowExecution \<Rightarrow> (string \<rightharpoonup> TimerInfo)"
  transferQueue :: "(WorkflowExecution \<times> TransferTask) list"
  timerQueue :: "(WorkflowExecution \<times> Task) list"

text \<open>
  Modelled from the spec: the fencing check is missing. "If a rangeID is supplied and
  does not match the shard's current RangeID, fails with ShardOwnershipLost"; a call
  that supplies none is not fenced.
\<close>

definition rangeIDStale :: "int64 option \<Rightarrow> workflowStore \<Rightarrow> bool" where
  "rangeIDStale rangeID st = (case rangeID of None \<Rightarrow> False | Some r \<Rightarrow> r \<noteq> shardRangeID st)"

text \<open>
  The arguments of \<open>createWorkflowExecution\<close>, with the names of the spec; the
  RangeID is the field \<open>RangeID\<close> of the request in the test.
\<close>

record CreateWorkflowExecutionRequest =
  execution :: WorkflowExecution
  taskList :: string
  historyRef :: string
  executionContext :: string
  nextEventID :: int64
  lastProcessedEvent :: int64
  decisionScheduleID :: int64
  timerTasks :: "Task list"
  createRangeID :: "int64 option"

text \<open>
  Modelled from the spec: \<open>createWorkflowExecution\<close> of the store is missing. It
  "fails with AlreadyStarted if an execution with that (workflowID, runID) ... already
  exists; on success atomically inserts the execution row, a DecisionTask
  transfer-queue entry for decisionScheduleID, and any supplied timer tasks". A stale
  RangeID is reported first: the test creates an execution that exists already with
  the RangeID before the current one and expects \<open>ShardOwnershipLostError\<close>. A new
  row is in state Created with a pending decision, as the test reads it back.
\<close>

definition createWorkflowExecution ::
  "CreateWorkflowExecutionRequest \<Rightarrow> int64 \<Rightarrow> workflowStore \<Rightarrow>
   (storeError + int64) \<times> workflowStore" where
  "createWorkflowExecution req now st =
     (if rangeIDStale (createRangeID req) st then (Inl ShardOwnershipLost, st)
      else if executions st (execution req) \<noteq> None then (Inl AlreadyStarted, st)
      else
        (let taskID = sequenceNumber st + 1;
             info = \<lparr>WorkflowID = fst (execution req), RunID = snd (execution req),
                     TaskList = taskList req, History = historyRef req,
                     ExecutionContext = executionContext req, State = WorkflowStateCreated,
                     NextEventID = nextEventID req, LastProcessedEvent = lastProcessedEvent req,
                     LastUpdatedTimestamp = now, DecisionPending = True\<rparr>
         in (Inr taskID,
             st\<lparr>sequenceNumber := taskID,
                executions := (executions st)(execution req \<mapsto> info),
                transferQueue := transferQueue st
                  @ [(execution req, DecisionTask taskID (taskList req) (decisionScheduleID req))],
                timerQueue := timerQueue st @ map (Pair (execution req)) (timerTasks req)\<rparr>)))"

text \<open>The arguments of \<open>updateWorkflowExecution\<close>, with the names of the spec.\<close>

record UpdateWorkflowExecutionRequest =
  newInfo :: WorkflowExecutionInfo
  newDecisionTaskIDs :: "int64 list"
  newTransferTasks :: "TransferTask list"
  conditionNextEventID :: int64
  newTimerTasks :: "Task list"
  timerTaskToDelete :: "Task option"
  newActivityInfos :: "ActivityInfo list"
  deleteActivityID :: "int64 option"
  newTimerInfos :: "TimerInfo list"
  deleteTimerIDs :: "string list"
  rangeID :: "int64 option"

text \<open>
  Modelled from the spec: the effect of an accepted update is missing. "On success,
  atomically: replaces the execution row, appends new transfer/timer tasks, deletes
  the named timer task (if any), upserts/deletes the named activity and timer info
  entries"; the time stamp of the row is "store-assigned on every write". The new
  decision tasks take the next sequence numbers of the shard.
\<close>

fun decisionTasks :: "int64 \<Rightarrow> string \<Rightarrow> int64 list \<Rightarrow> TransferTask list" where
  "decisionTasks seq lst [] = []"
| "decisionTasks seq lst (scheduleID # rest) =
     DecisionTask (seq + 1) lst scheduleID # decisionTasks (seq + 1) lst rest"

definition upsertActivityInfos ::
  "ActivityInfo list \<Rightarrow> (int64 \<rightharpoonup> ActivityInfo) \<Rightarrow> (int64 \<rightharpoonup> ActivityInfo)" where
  "upsertActivityInfos ais m = foldl (\<lambda>m ai. m(ScheduleID ai \<mapsto> ai)) m ais"

definition upsertTimerInfos ::
  "TimerInfo list \<Rightarrow> (string \<rightharpoonup> TimerInfo) \<Rightarrow> (string \<rightharpoonup> TimerInfo)" where
  "upsertTimerInfos tis m = foldl (\<lambda>m ti. m(TimerID ti \<mapsto> ti)) m tis"

definition deleteKeys :: "'k list \<Rightarrow> ('k \<rightharpoonup> 'v) \<Rightarrow> ('k \<rightharpoonup> 'v)" where
  "deleteKeys ks m = foldl (\<lambda>m k. m(k := None)) m ks"

definition applyUpdate ::
  "UpdateWorkflowExecutionRequest \<Rightarrow> int64 \<Rightarrow> workflowStore \<Rightarrow> workflowStore" where
  "applyUpdate req now st =
     (let e = (WorkflowID (newInfo req), RunID (newInfo req));
          n = of_nat (length (newDecisionTaskIDs req))
      in st\<lparr>sequenceNumber := sequenceNumber st + n,
            executions := (executions st)(e \<mapsto> (newInfo req)\<lparr>LastUpdatedTimestamp := now\<rparr>),
            transferQueue := transferQueue st
              @ map (Pair e) (decisionTasks (sequenceNumber st) (TaskList (newInfo req))
                                (newDecisionTaskIDs req) @ newTransferTasks req),
            timerQueue :=
              filter (\<lambda>(e', t). \<not> (e' = e \<and> (case timerTaskToDelete req of
                                                  None \<Rightarrow> False
                                                | Some d \<Rightarrow> GetTaskID t = GetTaskID d)))
                (timerQueue st @ map (Pair e) (newTimerTasks req)),
            activityInfos := (activityInfos st)(e :=
              deleteKeys (case deleteActivityID req of None \<Rightarrow> [] | Some a \<Rightarrow> [a])
                (upsertActivityInfos (newActivityInfos req) (activityInfos st e))),
            timerInfos := (timerInfos st)(e :=
              deleteKeys (deleteTimerIDs req)
                (upsertTimerInfos (newTimerInfos req) (timerInfos st e)))\<rparr>)"

text \<open>
  Modelled from the spec: \<open>updateWorkflowExecution\<close> of the store is missing. "The
  write is accepted only if the execution's currently-stored nextEventID equals
  conditionNextEventID; otherwise fails with ConditionFailed and leaves all state
  untouched. If a rangeID is supplied and does not match the shard's current RangeID,
  fails with ShardOwnershipLost instead (fencing takes priority ...)". An execution
  that is not stored has no nextEventID to match and fails the condition.
\<close>

definition updateWorkflowExecution ::
  "UpdateWorkflowExecutionRequest \<Rightarrow> int64 \<Rightarrow> workflowStore \<Rightarrow>
   (storeError + unit) \<times> workflowStore" where
  "updateWorkflowExecution req now st =
     (if rangeIDStale (rangeID req) st then (Inl ShardOwnershipLost, st)
      else case executions st (WorkflowID (newInfo req), RunID (newInfo req)) of
             None \<Rightarrow> (Inl ConditionFailed, st)
           | Some stored \<Rightarrow>
               if NextEventID stored = conditionNextEventID req
               then (Inr (), applyUpdate req now st)
               else (Inl ConditionFailed, st))"

subsection \<open>The store of the update test\<close>

text \<open>
  The state of \<open>TestUpdateWorkflow\<close> after its first update: one execution with
  \<open>NextEventID = 5\<close>. The shard's RangeID is 7. The update of the test carries a
  condition and, in the last step of the test, the RangeID 12345.
\<close>

definition exInfo :: WorkflowExecutionInfo where
  "exInfo = \<lparr>WorkflowID = ''update-workflow-test'',
     RunID = ''5ba5e531-e46b-48d9-b4b3-859919839553'', TaskList = ''queue1'',
     History = ''event2'', ExecutionContext = [], State = WorkflowStateCreated,
     NextEventID = 5, LastProcessedEvent = 2, LastUpdatedTimestamp = 0,
     DecisionPending = True\<rparr>"

definition exStore :: workflowStore where
  "exStore = \<lparr>shardRangeID = 7, sequenceNumber = 2,
     executions = [(''update-workflow-test'', ''5ba5e531-e46b-48d9-b4b3-859919839553'') \<mapsto> exInfo],
     activityInfos = (\<lambda>e. Map.empty), timerInfos = (\<lambda>e. Map.empty),
     transferQueue = [], timerQueue = []\<rparr>"

definition exUpdate :: "int64 \<Rightarrow> int64 option \<Rightarrow> UpdateWorkflowExecutionRequest" where
  "exUpdate condition rid =
     \<lparr>newInfo = exInfo, newDecisionTaskIDs = [5], newTransferTasks = [],
      conditionNextEventID = condition, newTimerTasks = [], timerTaskToDelete = None,
      newActivityInfos = [], deleteActivityID = None, newTimerInfos = [],
      deleteTimerIDs = [], rangeID = rid\<rparr>"

definition exCreate :: "int64 option \<Rightarrow> CreateWorkflowExecutionRequest" where
  "exCreate rid =
     \<lparr>execution = (''update-workflow-test'', ''5ba5e531-e46b-48d9-b4b3-859919839553''),
      taskList = ''queue1'', historyRef = ''event1'', executionContext = [],
      nextEventID = 3, lastProcessedEvent = 0, decisionScheduleID = 2, timerTasks = [],
      createRangeID = rid\<rparr>"

section \<open>Properties of the sequence key codec\<close>

subsection \<open>The masks\<close>

lemma seqmask_val: "TimerQueueSeqNumBitmask = 0x3FFFFFF"
  by (simp add: TimerQueueSeqNumBitmask_def TimerQueueSeqNumBits_def)

lemma seqmask_mask: "TimerQueueSeqNumBitmask = mask 26"
  by (simp add: seqmask_val mask_eq_exp_minus_1)

lemma tsmask_val: "TimerQueueTimeStampBitmask = 0x7FFFFFFFFC000000"
  by (simp add: TimerQueueTimeStampBitmask_def MaxInt64_def seqmask_val)

lemma SeqNumMax_val: "SeqNumMax = 0x3FFFFFF"
  by (simp add: SeqNumMax_def MaxInt64_def seqmask_val)

lemma maxint_mask: "MaxInt64 = mask 63"
  by (simp add: MaxInt64_def mask_eq_exp_minus_1)

lemma tsmask_mask: "TimerQueueTimeStampBitmask = mask 63 AND NOT (mask 26)"
  by (simp add: TimerQueueTimeStampBitmask_def maxint_mask seqmask_mask)

lemma bit_tsmask: "bit TimerQueueTimeStampBitmask n \<longleftrightarrow> 26 \<le> n \<and> n < 63"
  by (auto simp add: tsmask_mask bit_simps)

lemma bit_seqmask: "bit TimerQueueSeqNumBitmask n \<longleftrightarrow> n < 26"
  by (auto simp add: seqmask_mask bit_simps)

lemma con_and_tsmask:
  "ConstructTimerKey e s AND TimerQueueTimeStampBitmask = e AND TimerQueueTimeStampBitmask"
  by (rule bit_eqI)
    (auto simp add: ConstructTimerKey_def bit_and_iff bit_or_iff bit_tsmask bit_seqmask)

lemma con_and_seqmask:
  "ConstructTimerKey e s AND TimerQueueSeqNumBitmask = s AND TimerQueueSeqNumBitmask"
  by (rule bit_eqI)
    (auto simp add: ConstructTimerKey_def bit_and_iff bit_or_iff bit_tsmask bit_seqmask)

lemma decon_con:
  "DeconstructTimerKey (ConstructTimerKey e s) =
     (e AND TimerQueueTimeStampBitmask, s AND TimerQueueSeqNumBitmask)"
  by (simp add: DeconstructTimerKey_def con_and_tsmask con_and_seqmask)

subsection \<open>Signed and unsigned readings\<close>

lemma uint_of_nonneg_sint:
  fixes s :: int64
  assumes "0 \<le> sint s"
  shows "uint s = sint s"
proof -
  have "sint s < 2 ^ 64" using sint_lt [of s] by simp
  then have "take_bit 64 (sint s) = sint s"
    using assms by (simp add: take_bit_int_eq_self)
  then show ?thesis by (simp add: uint_sint)
qed

lemma seq_in_field:
  fixes s :: int64
  assumes "0 \<le>s s" "s \<le>s SeqNumMax"
  shows "s AND TimerQueueSeqNumBitmask = s"
proof -
  have nn: "0 \<le> sint s" using assms(1) by (simp add: word_sle_eq)
  have "sint s \<le> 67108863" using assms(2) by (simp add: word_sle_eq SeqNumMax_val)
  then have "uint s < 2 ^ 26" using uint_of_nonneg_sint [OF nn] by simp
  then have "s < 2 ^ 26" by (simp add: word_less_def)
  then show ?thesis by (simp add: seqmask_mask less_mask_eq)
qed

lemma take_bit_63_id:
  fixes w :: int64
  assumes "\<not> bit w 63"
  shows "take_bit 63 w = w"
proof (rule bit_eqI)
  fix n
  show "bit (take_bit 63 w) n = bit w n"
  proof (cases "n < 63")
    case True
    then show ?thesis by (simp add: bit_take_bit_iff)
  next
    case False
    then have "n = 63 \<or> 64 \<le> n" by arith
    then have "\<not> bit w n" using assms by (auto dest: bit_imp_le_length)
    then show ?thesis using False by (simp add: bit_take_bit_iff)
  qed
qed

lemma sint_uint_pos:
  fixes w :: int64
  assumes "\<not> bit w 63"
  shows "sint w = uint w"
proof -
  have tb: "take_bit 63 (uint w) = uint w"
    by (metis take_bit_63_id [OF assms] unsigned_take_bit_eq)
  have "signed_take_bit 63 (take_bit 63 (uint w)) = take_bit 63 (uint w)"
    by (simp add: signed_take_bit_take_bit)
  then have "signed_take_bit 63 (uint w) = uint w"
    by (simp only: tb)
  then show ?thesis
    by (simp add: sint_uint)
qed

lemma key_bit63: "\<not> bit (ConstructTimerKey e s) 63"
  by (simp add: ConstructTimerKey_def bit_and_iff bit_or_iff bit_tsmask bit_seqmask)

lemma sint_key: "sint (ConstructTimerKey e s) = uint (ConstructTimerKey e s)"
  by (rule sint_uint_pos [OF key_bit63])

lemma key_nonneg: "0 \<le>s ConstructTimerKey e s"
  by (simp add: word_sle_eq sint_key)

lemma key_not_empty: "ConstructTimerKey e s \<noteq> emptyTimerID"
proof
  assume "ConstructTimerKey e s = emptyTimerID"
  then have "bit (ConstructTimerKey e s) 63" by (simp add: emptyTimerID_def)
  then show False by (simp add: key_bit63)
qed

lemma sint_and_tsmask:
  "sint (w AND TimerQueueTimeStampBitmask) = uint (w AND TimerQueueTimeStampBitmask)"
  by (rule sint_uint_pos) (simp add: bit_and_iff bit_tsmask)

lemma sint_and_seqmask:
  "sint (w AND TimerQueueSeqNumBitmask) = uint (w AND TimerQueueSeqNumBitmask)"
  by (rule sint_uint_pos) (simp add: bit_and_iff bit_seqmask)

lemma uint_and_seqmask: "uint (w AND TimerQueueSeqNumBitmask) = uint w mod 2 ^ 26"
proof -
  have "uint (take_bit 26 w) = take_bit 26 (uint w)"
    by (simp add: unsigned_take_bit_eq)
  then show ?thesis
    by (simp add: seqmask_mask take_bit_eq_mask [symmetric] take_bit_eq_mod
        del: take_bit_eq_mod [symmetric])
qed

subsection \<open>A non-negative key is the sum of its two fields\<close>

lemma uint_fields:
  fixes w :: int64
  assumes "\<not> bit w 63"
  shows "uint w = uint (w AND TimerQueueTimeStampBitmask) + uint (w AND TimerQueueSeqNumBitmask)"
proof -
  have dis: "(w AND TimerQueueTimeStampBitmask) AND (w AND TimerQueueSeqNumBitmask) = 0"
    by (rule bit_eqI) (auto simp add: bit_and_iff bit_tsmask bit_seqmask)
  have "w = (w AND TimerQueueTimeStampBitmask) OR (w AND TimerQueueSeqNumBitmask)"
  proof (rule bit_eqI)
    fix n
    assume "possible_bit TYPE(int64) n"
    then have "n < 64" by (simp add: possible_bit_word)
    then have "n < 26 \<or> (26 \<le> n \<and> n < 63) \<or> n = 63" by arith
    then show "bit w n =
        bit ((w AND TimerQueueTimeStampBitmask) OR (w AND TimerQueueSeqNumBitmask)) n"
      using assms by (auto simp add: bit_and_iff bit_or_iff bit_tsmask bit_seqmask)
  qed
  then have "w = (w AND TimerQueueTimeStampBitmask) + (w AND TimerQueueSeqNumBitmask)"
    by (simp add: disjunctive_add_eq_or [OF dis])
  then have "uint w = uint ((w AND TimerQueueTimeStampBitmask) + (w AND TimerQueueSeqNumBitmask))"
    by simp
  also have "\<dots> = (uint (w AND TimerQueueTimeStampBitmask)
      + uint (w AND TimerQueueSeqNumBitmask)) mod 2 ^ 64"
    by (simp add: uint_word_ariths)
  finally have e: "uint w = (uint (w AND TimerQueueTimeStampBitmask)
      + uint (w AND TimerQueueSeqNumBitmask)) mod 2 ^ 64" .
  have "uint (w AND TimerQueueTimeStampBitmask) \<le> uint TimerQueueTimeStampBitmask"
    by (simp add: word_and_le1 [unfolded word_le_def])
  then have a: "uint (w AND TimerQueueTimeStampBitmask) \<le> 9223372036787666944"
    by (simp add: tsmask_val)
  have b: "uint (w AND TimerQueueSeqNumBitmask) < 67108864"
    by (simp add: uint_and_seqmask)
  have c: "0 \<le> uint (w AND TimerQueueTimeStampBitmask)" "0 \<le> uint (w AND TimerQueueSeqNumBitmask)"
    by simp_all
  show ?thesis using e a b c by simp
qed

lemma uint_and_tsmask:
  fixes w :: int64
  assumes "\<not> bit w 63"
  shows "uint (w AND TimerQueueTimeStampBitmask) = 2 ^ 26 * (uint w div 2 ^ 26)"
proof -
  have "uint (w AND TimerQueueTimeStampBitmask) = uint w - uint w mod 2 ^ 26"
    using uint_fields [OF assms] by (simp add: uint_and_seqmask)
  then show ?thesis by (simp add: minus_mod_eq_mult_div)
qed

lemma lex_int:
  fixes x y :: int
  shows "x < y \<longleftrightarrow> 67108864 * (x div 67108864) < 67108864 * (y div 67108864)
       \<or> (67108864 * (x div 67108864) = 67108864 * (y div 67108864)
          \<and> x mod 67108864 < y mod 67108864)"
proof -
  define hx lx hy ly where "hx = x div 67108864" and "lx = x mod 67108864"
    and "hy = y div 67108864" and "ly = y mod 67108864"
  have x: "x = 67108864 * hx + lx" and y: "y = 67108864 * hy + ly"
    by (simp_all add: hx_def lx_def hy_def ly_def)
  have bx: "0 \<le> lx" "lx < 67108864" and by': "0 \<le> ly" "ly < 67108864"
    by (simp_all add: lx_def ly_def)
  show ?thesis
    unfolding hx_def [symmetric] hy_def [symmetric] lx_def [symmetric] ly_def [symmetric]
    using x y bx by' by auto
qed

lemma sless_nonneg_lex:
  fixes v w :: int64
  assumes "\<not> bit v 63" "\<not> bit w 63"
  shows "v <s w \<longleftrightarrow>
     (v AND TimerQueueTimeStampBitmask) <s (w AND TimerQueueTimeStampBitmask)
     \<or> ((v AND TimerQueueTimeStampBitmask) = (w AND TimerQueueTimeStampBitmask)
        \<and> (v AND TimerQueueSeqNumBitmask) <s (w AND TimerQueueSeqNumBitmask))"
proof -
  have eq: "(v AND TimerQueueTimeStampBitmask) = (w AND TimerQueueTimeStampBitmask)
      \<longleftrightarrow> uint (v AND TimerQueueTimeStampBitmask) = uint (w AND TimerQueueTimeStampBitmask)"
    by (simp add: word_uint_eq_iff)
  show ?thesis
    unfolding word_sless_alt sint_and_tsmask sint_and_seqmask eq
      sint_uint_pos [OF assms(1)] sint_uint_pos [OF assms(2)]
      uint_and_tsmask [OF assms(1)] uint_and_tsmask [OF assms(2)] uint_and_seqmask
    using lex_int [of "uint v" "uint w"] by simp
qed

lemma key_sless_lex:
  "ConstructTimerKey t1 s1 <s ConstructTimerKey t2 s2 \<longleftrightarrow>
     (t1 AND TimerQueueTimeStampBitmask) <s (t2 AND TimerQueueTimeStampBitmask)
     \<or> ((t1 AND TimerQueueTimeStampBitmask) = (t2 AND TimerQueueTimeStampBitmask)
        \<and> (s1 AND TimerQueueSeqNumBitmask) <s (s2 AND TimerQueueSeqNumBitmask))"
  using sless_nonneg_lex [OF key_bit63 key_bit63, of t1 s1 t2 s2]
  by (simp add: con_and_tsmask con_and_seqmask)

subsection \<open>Round trip\<close>

text \<open>
  C2, as amended. For every expiry \<open>e\<close> and every \<open>s\<close> with \<open>0 \<le> s \<le> SeqNumMax\<close>,
  decoding the key built from \<open>e\<close> and \<open>s\<close> gives back \<open>s\<close> unchanged and the
  expiry reduced to its time stamp field, \<open>e AND TimerQueueTimeStampBitmask\<close>; the
  pair \<open>(e, s)\<close> itself comes back exactly when \<open>e\<close> lies in that field, which is
  when \<open>e\<close> is not negative and its low 26 bits are zero.
\<close>

theorem timer_key_round_trip:
  assumes "0 \<le>s s" and "s \<le>s SeqNumMax"
  shows "DeconstructTimerKey (ConstructTimerKey e s) = (e AND TimerQueueTimeStampBitmask, s)
    \<and> (DeconstructTimerKey (ConstructTimerKey e s) = (e, s)
         \<longleftrightarrow> e AND TimerQueueTimeStampBitmask = e)"
  using seq_in_field [OF assms] by (auto simp add: decon_con)

theorem timer_key_round_trip_witness:
  "(0 :: int64) \<le>s 7 \<and> (7 :: int64) \<le>s SeqNumMax
   \<and> DeconstructTimerKey (ConstructTimerKey 335544320 7) = (335544320, 7)"
proof -
  have h1: "(0 :: int64) \<le>s 7" by (simp add: word_sle_eq)
  have h2: "(7 :: int64) \<le>s SeqNumMax" by (simp add: word_sle_eq SeqNumMax_val)
  have "335544320 AND TimerQueueTimeStampBitmask = (335544320 :: int64)"
    by (simp add: tsmask_val)
  with timer_key_round_trip [OF h1 h2, of 335544320] h1 h2 show ?thesis by simp
qed

text \<open>
  C2, as stated, fails: an expiry of one second after the epoch, with the sequence
  number 5 inside the 26-bit field, does not come back; the low 26 bits of the expiry
  are lost.
\<close>

theorem timer_key_round_trip_counterexample:
  "(0 :: int64) \<le>s 5 \<and> (5 :: int64) \<le>s SeqNumMax
   \<and> DeconstructTimerKey (ConstructTimerKey 1000000000 5) = (939524096, 5)
   \<and> DeconstructTimerKey (ConstructTimerKey 1000000000 5) \<noteq> (1000000000, 5)"
  by (simp add: word_sle_eq SeqNumMax_val decon_con tsmask_val seqmask_val)

subsection \<open>Ordering\<close>

text \<open>
  C3, as amended. The signed order of two keys is the lexicographic order of their
  fields: the key of \<open>(t1, seq1)\<close> is below the key of \<open>(t2, seq2)\<close> exactly when
  \<open>t1 AND TimerQueueTimeStampBitmask\<close> is below \<open>t2 AND TimerQueueTimeStampBitmask\<close>,
  or these two time stamp fields are equal and \<open>seq1 AND TimerQueueSeqNumBitmask\<close> is
  below \<open>seq2 AND TimerQueueSeqNumBitmask\<close>. In particular, whenever the time stamp
  fields satisfy \<open>t1 AND mask < t2 AND mask\<close> the keys are ordered, whatever the
  sequence numbers are.
\<close>

theorem timer_key_order:
  "(ConstructTimerKey t1 seq1 <s ConstructTimerKey t2 seq2 \<longleftrightarrow>
      (t1 AND TimerQueueTimeStampBitmask) <s (t2 AND TimerQueueTimeStampBitmask)
      \<or> ((t1 AND TimerQueueTimeStampBitmask) = (t2 AND TimerQueueTimeStampBitmask)
         \<and> (seq1 AND TimerQueueSeqNumBitmask) <s (seq2 AND TimerQueueSeqNumBitmask)))
   \<and> ((t1 AND TimerQueueTimeStampBitmask) <s (t2 AND TimerQueueTimeStampBitmask)
      \<longrightarrow> ConstructTimerKey t1 seq1 <s ConstructTimerKey t2 seq2)"
  using key_sless_lex [of t1 seq1 t2 seq2] by blast

text \<open>
  Three pairs of keys: the time stamp fields decide against the sequence numbers;
  in one field the sequence numbers decide; and the pair of the counterexample below,
  which the theorem puts in the other order.
\<close>

theorem timer_key_order_witness:
  "ConstructTimerKey 1000000000 5 <s ConstructTimerKey 2000000000 4
   \<and> ConstructTimerKey 1000000000 4 <s ConstructTimerKey 1000000001 5
   \<and> \<not> ConstructTimerKey 1000000000 5 <s ConstructTimerKey 1000000001 4
   \<and> ConstructTimerKey 1000000001 4 <s ConstructTimerKey 1000000000 5"
proof -
  have f1: "(1000000000 AND TimerQueueTimeStampBitmask) = (939524096 :: int64)"
    and f1': "(1000000001 AND TimerQueueTimeStampBitmask) = (939524096 :: int64)"
    and f2: "(2000000000 AND TimerQueueTimeStampBitmask) = (1946157056 :: int64)"
    by (simp_all add: tsmask_val)
  have s4: "(4 AND TimerQueueSeqNumBitmask) = (4 :: int64)"
    and s5: "(5 AND TimerQueueSeqNumBitmask) = (5 :: int64)"
    by (simp_all add: seqmask_val)
  have o: "(939524096 :: int64) <s 1946157056" "(4 :: int64) <s 5" "\<not> (5 :: int64) <s 4"
    "\<not> (939524096 :: int64) <s 939524096"
    by (simp_all add: word_sless_alt)
  show ?thesis
    using timer_key_order [of 1000000000 5 2000000000 4]
      timer_key_order [of 1000000000 4 1000000001 5]
      timer_key_order [of 1000000000 5 1000000001 4]
      timer_key_order [of 1000000001 4 1000000000 5]
    by (simp add: f1 f1' f2 s4 s5 o)
qed

text \<open>
  C3, as stated, fails: two expiry times one nanosecond apart fall into the same time
  stamp field, and then the sequence numbers alone decide the order of the keys.
\<close>

theorem timer_key_order_counterexample:
  "(1000000000 :: int64) <s 1000000001
   \<and> (0 :: int64) \<le>s 5 \<and> (5 :: int64) \<le>s SeqNumMax
   \<and> (0 :: int64) \<le>s 4 \<and> (4 :: int64) \<le>s SeqNumMax
   \<and> ConstructTimerKey 1000000000 5 = 939524101
   \<and> ConstructTimerKey 1000000001 4 = 939524100
   \<and> \<not> ConstructTimerKey 1000000000 5 <s ConstructTimerKey 1000000001 4"
  by (simp add: word_sle_eq word_sless_alt SeqNumMax_val ConstructTimerKey_def
      tsmask_val seqmask_val)

subsection \<open>Expiry\<close>

text \<open>
  C10. \<open>IsTimerExpired\<close> holds exactly when the time stamp field of the candidate's
  \<open>SequenceID\<close>, that is \<open>SequenceID AND TimerQueueTimeStampBitmask\<close> (bits 26 to 62
  of the key), is less than or equal to the reference time; so a timer whose expiry
  field equals the reference time counts as expired.
\<close>

theorem is_timer_expired_inclusive:
  "(IsTimerExpired tb td referenceTime
      \<longleftrightarrow> (SequenceID td AND TimerQueueTimeStampBitmask) \<le>s referenceTime)
   \<and> (IsTimerExpired tb td referenceTime
      \<longleftrightarrow> (SequenceID td AND 0x7FFFFFFFFC000000) \<le>s referenceTime)
   \<and> IsTimerExpired tb td (SequenceID td AND TimerQueueTimeStampBitmask)"
  by (simp add: IsTimerExpired_def DeconstructTimerKey_def tsmask_val)

theorem is_timer_expired_inclusive_witness:
  "IsTimerExpired tb_new (exTimer 939524101) 939524096
   \<and> \<not> IsTimerExpired tb_new (exTimer 939524101) 939524095
   \<and> IsTimerExpired tb_new (exTimer 0) 5
   \<and> IsTimerExpired tb_new (exTimer 0) 0
   \<and> \<not> IsTimerExpired tb_new (exTimer 0) (- 1)
   \<and> \<not> IsTimerExpired tb_new (exTimer (- 1)) 5"
proof -
  have f: "SequenceID (exTimer 939524101) AND 0x7FFFFFFFFC000000 = 939524096"
    "SequenceID (exTimer 0) AND 0x7FFFFFFFFC000000 = 0"
    "SequenceID (exTimer (- 1)) AND 0x7FFFFFFFFC000000 = 0x7FFFFFFFFC000000"
    by (simp_all add: exTimer_def)
  have o: "(939524096 :: int64) \<le>s 939524096" "\<not> (939524096 :: int64) \<le>s 939524095"
    "(0 :: int64) \<le>s 5" "(0 :: int64) \<le>s 0" "\<not> (0 :: int64) \<le>s - 1"
    "\<not> (0x7FFFFFFFFC000000 :: int64) \<le>s 5"
    by (simp_all add: word_sle_eq)
  show ?thesis
    using is_timer_expired_inclusive [of tb_new "exTimer 939524101" 939524096]
      is_timer_expired_inclusive [of tb_new "exTimer 939524101" 939524095]
      is_timer_expired_inclusive [of tb_new "exTimer 0" 5]
      is_timer_expired_inclusive [of tb_new "exTimer 0" 0]
      is_timer_expired_inclusive [of tb_new "exTimer 0" "- 1"]
      is_timer_expired_inclusive [of tb_new "exTimer (- 1)" 5]
    by (simp add: tsmask_val f o)
qed

section \<open>Properties of the pending timer index\<close>

subsection \<open>Binary search\<close>

declare Search_loop.simps [simp del]

lemma Search_loop_stop: "\<not> i < j \<Longrightarrow> Search_loop f i j = i"
  by (simp add: Search_loop.simps [of f i j])

lemma Search_loop_step:
  "i < j \<Longrightarrow> Search_loop f i j =
     (if \<not> f ((i + j) div 2) then Search_loop f ((i + j) div 2 + 1) j
      else Search_loop f i ((i + j) div 2))"
  by (simp add: Search_loop.simps [of f i j] Let_def)

lemma Search_eval:
  "Search_loop f i j =
     (if i < j then
        (if \<not> f ((i + j) div 2) then Search_loop f ((i + j) div 2 + 1) j
         else Search_loop f i ((i + j) div 2))
      else i)"
  by (simp add: Search_loop.simps [of f i j] Let_def)

lemma Search_loop_bounds:
  assumes mono: "\<And>a b. a \<le> b \<Longrightarrow> b < n \<Longrightarrow> f a \<Longrightarrow> f b"
  shows "i \<le> j \<Longrightarrow> j \<le> n \<Longrightarrow> (\<forall>k<i. \<not> f k) \<Longrightarrow> (\<forall>k. j \<le> k \<and> k < n \<longrightarrow> f k) \<Longrightarrow>
     Search_loop f i j \<le> n \<and> (\<forall>k<Search_loop f i j. \<not> f k)
       \<and> (\<forall>k. Search_loop f i j \<le> k \<and> k < n \<longrightarrow> f k)"
proof (induction "j - i" arbitrary: i j rule: less_induct)
  case less
  show ?case
  proof (cases "i < j")
    case False
    with less.prems have "Search_loop f i j = j" "i = j"
      by (simp_all add: Search_loop_stop)
    then show ?thesis using less.prems by simp
  next
    case True
    define h where "h = (i + j) div 2"
    have hb: "i \<le> h" "h < j" using True by (simp_all add: h_def)
    show ?thesis
    proof (cases "f h")
      case fh: True
      have up: "\<forall>k. h \<le> k \<and> k < n \<longrightarrow> f k"
        using mono fh by blast
      have eq: "Search_loop f i j = Search_loop f i h"
        using True fh by (simp add: Search_loop_step h_def)
      have "h - i < j - i" using hb by arith
      from less.hyps [OF this hb(1) _ less.prems(3) up] hb less.prems(2)
      show ?thesis by (simp add: eq)
    next
      case nfh: False
      have lo: "\<forall>k<h + 1. \<not> f k"
      proof (intro allI impI)
        fix k assume "k < h + 1"
        then have "k \<le> h" by simp
        moreover have "h < n" using hb less.prems(2) by arith
        ultimately show "\<not> f k" using mono nfh by blast
      qed
      have eq: "Search_loop f i j = Search_loop f (h + 1) j"
        using True nfh by (simp add: Search_loop_step h_def)
      have "j - (h + 1) < j - i" using hb by arith
      from less.hyps [OF this _ less.prems(2) lo less.prems(4)] hb
      show ?thesis by (simp add: eq)
    qed
  qed
qed

subsection \<open>The signed order\<close>

lemma sle_trans: "a \<le>s b \<Longrightarrow> b \<le>s c \<Longrightarrow> a \<le>s c"
  by (simp add: word_sle_eq)

lemma sle_total: "a \<le>s b \<or> b \<le>s a"
  by (auto simp add: word_sle_eq)

lemma sle_refl: "a \<le>s a"
  by (simp add: word_sle_eq)

lemma sle_not_sless: "a \<le>s b \<longleftrightarrow> \<not> b <s a"
  by (auto simp add: word_sle_eq word_sless_alt)

lemma not_sle_0_10: "\<not> (10 :: int32) \<le>s 0"
  by (simp add: word_sle_eq)

lemma key_field_mono:
  assumes "ConstructTimerKey a s \<le>s ConstructTimerKey b t"
  shows "(a AND TimerQueueTimeStampBitmask) \<le>s (b AND TimerQueueTimeStampBitmask)"
  using assms key_sless_lex [of b t a s] by (simp add: sle_not_sless)

subsection \<open>Insertion\<close>

lemma insertTimer_timers:
  fixes tb :: timerBuilder and td :: timerDetails
  assumes "timersSorted (timers tb)"
  defines "i \<equiv> Search (length (timers tb)) (\<lambda>i. SequenceID td \<le>s SequenceID (timers tb ! i))"
  shows "insertTimer td tb = (i = 0, tb\<lparr>timers := take i (timers tb) @ td # drop i (timers tb)\<rparr>)"
    and "i \<le> length (timers tb)"
    and "\<forall>k<i. \<not> SequenceID td \<le>s SequenceID (timers tb ! k)"
    and "\<forall>k. i \<le> k \<and> k < length (timers tb) \<longrightarrow> SequenceID td \<le>s SequenceID (timers tb ! k)"
proof -
  let ?ts = "timers tb"
  let ?f = "\<lambda>i. SequenceID td \<le>s SequenceID (?ts ! i)"
  have mono: "\<And>a b. a \<le> b \<Longrightarrow> b < length ?ts \<Longrightarrow> ?f a \<Longrightarrow> ?f b"
  proof -
    fix a b assume ab: "a \<le> b" "b < length ?ts" and fa: "?f a"
    show "?f b"
    proof (cases "a = b")
      case True then show ?thesis using fa by simp
    next
      case False
      then have "a < b" using ab by simp
      then have "SequenceID (?ts ! a) \<le>s SequenceID (?ts ! b)"
        using sorted_wrt_nth_less [of "\<lambda>a b. SequenceID a \<le>s SequenceID b" ?ts a b]
          assms(1) ab(2) by (simp add: timersSorted_def)
      with fa show ?thesis by (rule sle_trans)
    qed
  qed
  have b: "i \<le> length ?ts \<and> (\<forall>k<i. \<not> ?f k) \<and> (\<forall>k. i \<le> k \<and> k < length ?ts \<longrightarrow> ?f k)"
    unfolding i_def Search_def
    by (rule Search_loop_bounds [OF mono]) auto
  then show "i \<le> length ?ts" "\<forall>k<i. \<not> ?f k" "\<forall>k. i \<le> k \<and> k < length ?ts \<longrightarrow> ?f k"
    by simp_all
  show "insertTimer td tb = (i = 0, tb\<lparr>timers := take i ?ts @ td # drop i ?ts\<rparr>)"
    by (simp add: insertTimer_def Let_def i_def [symmetric])
qed

lemma insertTimer_sorted_aux:
  fixes tb :: timerBuilder and td :: timerDetails
  assumes "timersSorted (timers tb)"
  shows "timersSorted (timers (snd (insertTimer td tb)))"
proof -
  let ?ts = "timers tb"
  define i where "i = Search (length ?ts) (\<lambda>i. SequenceID td \<le>s SequenceID (?ts ! i))"
  note f = insertTimer_timers [OF assms, of td, folded i_def]
  have s1: "timersSorted (take i ?ts)" and s2: "timersSorted (drop i ?ts)"
    using assms by (simp_all add: timersSorted_def sorted_wrt_take sorted_wrt_drop)
  have lo: "\<forall>x\<in>set (take i ?ts). SequenceID x \<le>s SequenceID td"
  proof
    fix x assume "x \<in> set (take i ?ts)"
    then obtain k where "k < i" "k < length ?ts" "x = ?ts ! k"
      by (auto simp add: in_set_conv_nth)
    then show "SequenceID x \<le>s SequenceID td"
      using f(3) sle_total [of "SequenceID x" "SequenceID td"] by auto
  qed
  have hi: "\<forall>y\<in>set (drop i ?ts). SequenceID td \<le>s SequenceID y"
  proof
    fix y assume "y \<in> set (drop i ?ts)"
    then obtain k where "k < length ?ts - i" "y = ?ts ! (i + k)"
      by (auto simp add: in_set_conv_nth)
    then show "SequenceID td \<le>s SequenceID y"
      using f(4) by auto
  qed
  have cross: "\<forall>x\<in>set (take i ?ts). \<forall>y\<in>set (drop i ?ts). SequenceID x \<le>s SequenceID y"
    using lo hi by (blast intro: sle_trans)
  show ?thesis
    using s1 s2 lo hi cross
    by (simp add: f(1) timersSorted_def sorted_wrt_append)
qed

lemma insertTimer_set:
  fixes tb :: timerBuilder and td :: timerDetails
  assumes "timersSorted (timers tb)"
  shows "set (timers (snd (insertTimer td tb))) = insert td (set (timers tb))"
proof -
  let ?ts = "timers tb"
  define i where "i = Search (length ?ts) (\<lambda>i. SequenceID td \<le>s SequenceID (?ts ! i))"
  note f = insertTimer_timers [OF assms, of td, folded i_def]
  have "set (take i ?ts) \<union> set (drop i ?ts) = set ?ts"
    by (metis append_take_drop_id set_append)
  then show ?thesis by (simp add: f(1))
qed

lemma insertTimer_other:
  fixes tb :: timerBuilder and td :: timerDetails
  shows "pendingUserTimers (snd (insertTimer td tb)) = pendingUserTimers tb"
    and "seqNumGen (snd (insertTimer td tb)) = seqNumGen tb"
    and "localSeqNumGen (snd (insertTimer td tb)) = localSeqNumGen tb"
  by (simp_all add: insertTimer_def Let_def)

text \<open>
  C9. On a list of timers sorted in ascending order of \<open>SequenceID\<close>,
  \<open>insertTimer\<close> leaves the list sorted, with the candidate put in at one position
  and nothing else changed, and it returns true exactly when the candidate stands at
  the front of the new list, which is exactly when its \<open>SequenceID\<close> is less than or
  equal to that of every timer that was in the list.
\<close>

theorem insertTimer_sorted:
  fixes tb :: timerBuilder and td :: timerDetails
  assumes "timersSorted (timers tb)"
  shows "timersSorted (timers (snd (insertTimer td tb)))
    \<and> (\<exists>i. i \<le> length (timers tb)
          \<and> snd (insertTimer td tb) = tb\<lparr>timers := take i (timers tb) @ td # drop i (timers tb)\<rparr>)
    \<and> (fst (insertTimer td tb) \<longleftrightarrow> timers (snd (insertTimer td tb)) = td # timers tb)
    \<and> (fst (insertTimer td tb) \<longleftrightarrow> (\<forall>x\<in>set (timers tb). SequenceID td \<le>s SequenceID x))"
proof -
  let ?ts = "timers tb"
  define i where "i = Search (length ?ts) (\<lambda>i. SequenceID td \<le>s SequenceID (?ts ! i))"
  note f = insertTimer_timers [OF assms, of td, folded i_def]
  have pos: "(\<exists>i. i \<le> length ?ts
          \<and> snd (insertTimer td tb) = tb\<lparr>timers := take i ?ts @ td # drop i ?ts\<rparr>)"
    using f(1,2) by auto
  have front: "fst (insertTimer td tb) \<longleftrightarrow> timers (snd (insertTimer td tb)) = td # ?ts"
  proof
    assume "fst (insertTimer td tb)"
    then have "i = 0" by (simp add: f(1))
    then show "timers (snd (insertTimer td tb)) = td # ?ts" by (simp add: f(1))
  next
    assume eq: "timers (snd (insertTimer td tb)) = td # ?ts"
    show "fst (insertTimer td tb)"
    proof (rule ccontr)
      assume "\<not> fst (insertTimer td tb)"
      then have ipos: "0 < i" by (simp add: f(1))
      then have ne: "?ts \<noteq> []" using f(2) by auto
      have "(take i ?ts @ td # drop i ?ts) ! 0 = ?ts ! 0"
        using ipos ne by (simp add: nth_append)
      moreover have "(take i ?ts @ td # drop i ?ts) ! 0 = td"
        using eq by (simp add: f(1))
      ultimately have "?ts ! 0 = td" by simp
      moreover have "\<not> SequenceID td \<le>s SequenceID (?ts ! 0)" using f(3) ipos by blast
      ultimately show False by (simp add: sle_refl)
    qed
  qed
  have least: "fst (insertTimer td tb) \<longleftrightarrow> (\<forall>x\<in>set ?ts. SequenceID td \<le>s SequenceID x)"
  proof
    assume "fst (insertTimer td tb)"
    then have "i = 0" by (simp add: f(1))
    then show "\<forall>x\<in>set ?ts. SequenceID td \<le>s SequenceID x"
      using f(4) by (auto simp add: in_set_conv_nth)
  next
    assume all: "\<forall>x\<in>set ?ts. SequenceID td \<le>s SequenceID x"
    show "fst (insertTimer td tb)"
    proof (rule ccontr)
      assume "\<not> fst (insertTimer td tb)"
      then have ipos: "0 < i" by (simp add: f(1))
      then have "0 < length ?ts" using f(2) by auto
      then have "?ts ! 0 \<in> set ?ts" by simp
      then have "SequenceID td \<le>s SequenceID (?ts ! 0)" using all by blast
      then show False using f(3) ipos by blast
    qed
  qed
  show ?thesis
    using insertTimer_sorted_aux [OF assms, of td] pos front least by blast
qed

theorem insertTimer_sorted_witness:
  "timersSorted (timers (exBuilder [exTimer 10, exTimer 30]))
   \<and> timers (snd (insertTimer (exTimer 20) (exBuilder [exTimer 10, exTimer 30])))
       = [exTimer 10, exTimer 20, exTimer 30]
   \<and> timersSorted (timers (snd (insertTimer (exTimer 20) (exBuilder [exTimer 10, exTimer 30]))))
   \<and> \<not> fst (insertTimer (exTimer 20) (exBuilder [exTimer 10, exTimer 30]))
   \<and> fst (insertTimer (exTimer 5) (exBuilder [exTimer 10, exTimer 30]))"
proof -
  have h: "timersSorted (timers (exBuilder [exTimer 10, exTimer 30]))"
    by (simp add: timersSorted_def exBuilder_def exTimer_def word_sle_eq)
  have e: "timers (snd (insertTimer (exTimer 20) (exBuilder [exTimer 10, exTimer 30])))
       = [exTimer 10, exTimer 20, exTimer 30]"
    by (simp add: insertTimer_def Search_def Search_eval exBuilder_def exTimer_def
        word_sle_eq Let_def)
  have a20: "\<not> (\<forall>x\<in>set (timers (exBuilder [exTimer 10, exTimer 30])).
      SequenceID (exTimer 20) \<le>s SequenceID x)"
    by (simp add: exBuilder_def exTimer_def word_sle_eq)
  have a5: "\<forall>x\<in>set (timers (exBuilder [exTimer 10, exTimer 30])).
      SequenceID (exTimer 5) \<le>s SequenceID x"
    by (simp add: exBuilder_def exTimer_def word_sle_eq)
  show ?thesis
    using insertTimer_sorted [OF h, of "exTimer 20"] insertTimer_sorted [OF h, of "exTimer 5"]
      h e a20 a5
    by blast
qed

section \<open>Properties of the timer builder\<close>

subsection \<open>Activity timeouts\<close>

text \<open>
  C8. For every schedule ID and every kind of timeout, \<open>AddActivityTimeoutTask\<close>
  returns no task and leaves the builder as it is when \<open>fireTimeout \<le> 0\<close>;
  otherwise it returns a new ActivityTimeoutTask of that kind for that schedule ID,
  whose key is built from the expiry and the next number of the sequence generator.
\<close>

theorem activity_timeout_suppression:
  "(fireTimeout \<le>s 0 \<longrightarrow>
      AddActivityTimeoutTask now scheduleID timeoutType fireTimeout tb = (None, tb))
   \<and> (\<not> fireTimeout \<le>s 0 \<longrightarrow>
      AddActivityTimeoutTask now scheduleID timeoutType fireTimeout tb =
        (Some (ActivityTimeoutTask
                 (ConstructTimerKey (AddSecondsToBaseTime now (scast fireTimeout))
                    (fst (NextSeq (seqNumGen tb))))
                 timeoutType scheduleID),
         tb\<lparr>seqNumGen := snd (NextSeq (seqNumGen tb))\<rparr>))"
  by (simp add: AddActivityTimeoutTask_def createActivityTimeoutTask_def split_beta Let_def)

theorem activity_timeout_suppression_witness:
  "AddActivityTimeoutTask 1000000000 7 HEARTBEAT 0 (newTimerBuilder (localSeqNumGenerator 0))
     = (None, newTimerBuilder (localSeqNumGenerator 0))
   \<and> AddActivityTimeoutTask 1000000000 7 HEARTBEAT (- 3) (newTimerBuilder (localSeqNumGenerator 0))
     = (None, newTimerBuilder (localSeqNumGenerator 0))
   \<and> fst (AddActivityTimeoutTask 1000000000 7 HEARTBEAT 5 (newTimerBuilder (localSeqNumGenerator 0)))
     = Some (ActivityTimeoutTask 5972688897 HEARTBEAT 7)"
proof -
  have a: "(0 :: int32) \<le>s 0" and b: "(- 3 :: int32) \<le>s 0" and c: "\<not> (5 :: int32) \<le>s 0"
    by (simp_all add: word_sle_eq)
  have k: "ConstructTimerKey (AddSecondsToBaseTime 1000000000 (scast (5 :: int32)))
      (fst (NextSeq (seqNumGen (newTimerBuilder (localSeqNumGenerator 0))))) = 5972688897"
    by (simp add: ConstructTimerKey_def AddSecondsToBaseTime_def newTimerBuilder_def
        tsmask_val seqmask_val)
  show ?thesis
    using activity_timeout_suppression [of 0 1000000000 7 HEARTBEAT "newTimerBuilder (localSeqNumGenerator 0)"]
      activity_timeout_suppression [of "- 3" 1000000000 7 HEARTBEAT "newTimerBuilder (localSeqNumGenerator 0)"]
      activity_timeout_suppression [of 5 1000000000 7 HEARTBEAT "newTimerBuilder (localSeqNumGenerator 0)"]
      a b c k
    by simp
qed

text \<open>
  C7. Every call of \<open>AddScheduleToStartActivityTimeout\<close> records, under the schedule
  ID, a new ActivityInfo in which each of the schedule-to-start, schedule-to-close and
  start-to-close timeouts is the configured value when that is positive and the
  default of 10 seconds otherwise, and the heartbeat timeout is the configured value;
  and it returns a new ActivityTimeoutTask of kind \<open>SCHEDULE_TO_START\<close>.
\<close>

theorem schedule_to_start_defaults:
  "AddScheduleToStartActivityTimeout now emptyEventID scheduleID scheduleEvent (tb, msBuilder) =
     (Some (ActivityTimeoutTask
         (ConstructTimerKey
            (AddSecondsToBaseTime now
               (scast (if ScheduleToStartTimeoutSeconds scheduleEvent \<le>s 0 then 10
                       else ScheduleToStartTimeoutSeconds scheduleEvent)))
            (fst (NextSeq (seqNumGen tb))))
         SCHEDULE_TO_START scheduleID),
      tb\<lparr>seqNumGen := snd (NextSeq (seqNumGen tb))\<rparr>,
      msBuilder\<lparr>pendingActivityInfoIDs := (pendingActivityInfoIDs msBuilder)(scheduleID \<mapsto>
        \<lparr>ScheduleID = scheduleID,
         ActivityInfo.StartedID = emptyEventID,
         ActivityID = ActivityId scheduleEvent,
         ScheduleToStartTimeout =
           (if ScheduleToStartTimeoutSeconds scheduleEvent \<le>s 0 then 10
            else ScheduleToStartTimeoutSeconds scheduleEvent),
         ScheduleToCloseTimeout =
           (if ScheduleToCloseTimeoutSeconds scheduleEvent \<le>s 0 then 10
            else ScheduleToCloseTimeoutSeconds scheduleEvent),
         StartToCloseTimeout =
           (if StartToCloseTimeoutSeconds scheduleEvent \<le>s 0 then 10
            else StartToCloseTimeoutSeconds scheduleEvent),
         HeartbeatTimeout = HeartbeatTimeoutSeconds scheduleEvent,
         CancelRequested = False,
         CancelRequestID = emptyEventID\<rparr>)\<rparr>)"
proof -
  define s2s where "s2s = (if ScheduleToStartTimeoutSeconds scheduleEvent \<le>s 0 then 10
            else ScheduleToStartTimeoutSeconds scheduleEvent)"
  have pos: "\<not> s2s \<le>s 0"
    by (simp add: s2s_def not_sle_0_10)
  have t: "AddActivityTimeoutTask now scheduleID SCHEDULE_TO_START s2s tb =
      (Some (ActivityTimeoutTask
         (ConstructTimerKey (AddSecondsToBaseTime now (scast s2s)) (fst (NextSeq (seqNumGen tb))))
         SCHEDULE_TO_START scheduleID),
       tb\<lparr>seqNumGen := snd (NextSeq (seqNumGen tb))\<rparr>)"
    using pos
    by (simp add: AddActivityTimeoutTask_def createActivityTimeoutTask_def split_beta Let_def)
  show ?thesis
    unfolding AddScheduleToStartActivityTimeout_def s2s_def [symmetric]
      DefaultScheduleToStartActivityTimeoutInSecs_def
      DefaultScheduleToCloseActivityTimeoutInSecs_def
      DefaultStartToCloseActivityTimeoutInSecs_def
    by (simp add: Let_def t UpdatePendingActivity_def s2s_def [symmetric])
qed

theorem schedule_to_start_defaults_witness:
  "fst (AddScheduleToStartActivityTimeout 1000000000 (- 23) 7 exEvent (tb_new, ms_empty))
     = Some (ActivityTimeoutTask 10938744833 SCHEDULE_TO_START 7)
   \<and> pendingActivityInfoIDs
        (snd (snd (AddScheduleToStartActivityTimeout 1000000000 (- 23) 7 exEvent (tb_new, ms_empty)))) 7
     = Some \<lparr>ScheduleID = 7, ActivityInfo.StartedID = - 23, ActivityID = ''act'',
         ScheduleToStartTimeout = 10, ScheduleToCloseTimeout = 10, StartToCloseTimeout = 30,
         HeartbeatTimeout = 0, CancelRequested = False, CancelRequestID = - 23\<rparr>"
proof -
  have a: "(0 :: int32) \<le>s 0" and b: "(- 1 :: int32) \<le>s 0" and c: "\<not> (30 :: int32) \<le>s 0"
    by (simp_all add: word_sle_eq)
  have k: "ConstructTimerKey (AddSecondsToBaseTime 1000000000 (scast (10 :: int32)))
      (fst (NextSeq (seqNumGen tb_new))) = 10938744833"
    by (simp add: ConstructTimerKey_def AddSecondsToBaseTime_def newTimerBuilder_def tb_new_def
        tsmask_val seqmask_val)
  show ?thesis
    using schedule_to_start_defaults [of 1000000000 "- 23" 7 exEvent tb_new ms_empty] a b c k
    by (simp add: exEvent_def ms_empty_def)
qed

subsection \<open>Loading the user timers\<close>

lemma loadUserTimer_facts:
  fixes tb :: timerBuilder and expires :: int64 and task :: Task and taskCreated :: bool
  assumes "timersSorted (timers tb)"
  defines "r \<equiv> loadUserTimer expires task taskCreated tb"
  shows "fst (fst r) = \<lparr>SequenceID = ConstructTimerKey expires (fst (NextSeq (localSeqNumGen tb))),
            TimerTask = task, TaskCreated = taskCreated\<rparr>"
    and "timersSorted (timers (snd r))"
    and "set (timers (snd r)) = insert (fst (fst r)) (set (timers tb))"
    and "pendingUserTimers (snd r) = pendingUserTimers tb"
    and "seqNumGen (snd r) = seqNumGen tb"
proof -
  define g where "g = NextSeq (localSeqNumGen tb)"
  define td where "td = \<lparr>SequenceID = ConstructTimerKey expires (fst g),
            TimerTask = task, TaskCreated = taskCreated\<rparr>"
  define tb1 where "tb1 = tb\<lparr>localSeqNumGen := snd g\<rparr>"
  have r: "r = ((td, fst (insertTimer td tb1)), snd (insertTimer td tb1))"
    by (simp add: r_def loadUserTimer_def createTimer_def split_beta Let_def g_def td_def tb1_def)
  have s: "timersSorted (timers tb1)" using assms(1) by (simp add: tb1_def)
  show "fst (fst r) = \<lparr>SequenceID = ConstructTimerKey expires (fst (NextSeq (localSeqNumGen tb))),
            TimerTask = task, TaskCreated = taskCreated\<rparr>"
    by (simp add: r td_def g_def)
  show "timersSorted (timers (snd r))"
    using insertTimer_sorted_aux [OF s] by (simp add: r)
  show "set (timers (snd r)) = insert (fst (fst r)) (set (timers tb))"
    using insertTimer_set [OF s, of td] by (simp add: r tb1_def)
  show "pendingUserTimers (snd r) = pendingUserTimers tb"
    by (simp add: r insertTimer_other tb1_def)
  show "seqNumGen (snd r) = seqNumGen tb"
    by (simp add: r insertTimer_other tb1_def)
qed

lemma indexInv_step:
  assumes inv: "indexInv ms V tb" and kv: "pendingTimerInfoIDs ms k = Some v"
  defines "r \<equiv> loadUserTimer (ExpiryTime v) (UserTimerTask 0 (StartedID v)) (TaskID v \<noteq> emptyTimerID) tb"
  shows "indexInv ms (insert k V)
     ((snd r)\<lparr>pendingUserTimers := (pendingUserTimers (snd r))(SequenceID (fst (fst r)) \<mapsto> v)\<rparr>)"
proof -
  have srt: "timersSorted (timers tb)" using inv by (simp add: indexInv_def)
  note f = loadUserTimer_facts [OF srt, of "ExpiryTime v" "UserTimerTask 0 (StartedID v)"
      "TaskID v \<noteq> emptyTimerID", folded r_def]
  define td where "td = fst (fst r)"
  define tb' where "tb' = (snd r)\<lparr>pendingUserTimers := (pendingUserTimers (snd r))(SequenceID td \<mapsto> v)\<rparr>"
  have vran: "v \<in> ran (pendingTimerInfoIDs ms)" using kv by (auto simp add: ran_def)
  have tdkey: "SequenceID td = ConstructTimerKey (ExpiryTime v) (fst (NextSeq (localSeqNumGen tb)))"
    and tdc: "TaskCreated td = (TaskID v \<noteq> emptyTimerID)"
    and tdt: "TimerTask td = UserTimerTask 0 (StartedID v)"
    by (simp_all add: td_def f(1))
  have tdf: "SequenceID td AND TimerQueueTimeStampBitmask = expiryField v"
    by (simp add: tdkey con_and_tsmask expiryField_def)
  have tset: "set (timers tb') = insert td (set (timers tb))"
    by (simp add: tb'_def f(3) td_def)
  have put: "pendingUserTimers tb' = (pendingUserTimers tb)(SequenceID td \<mapsto> v)"
    by (simp add: tb'_def f(4))
  have A: "timersSorted (timers tb')" by (simp add: tb'_def f(2))
  have B: "\<forall>x\<in>set (timers tb'). \<exists>v s e. v \<in> ran (pendingTimerInfoIDs ms)
          \<and> SequenceID x = ConstructTimerKey (ExpiryTime v) s
          \<and> TaskCreated x = (TaskID v \<noteq> emptyTimerID)
          \<and> TimerTask x = UserTimerTask 0 e"
  proof
    fix x assume "x \<in> set (timers tb')"
    then consider "x = td" | "x \<in> set (timers tb)" using tset by auto
    then show "\<exists>v s e. v \<in> ran (pendingTimerInfoIDs ms)
          \<and> SequenceID x = ConstructTimerKey (ExpiryTime v) s
          \<and> TaskCreated x = (TaskID v \<noteq> emptyTimerID)
          \<and> TimerTask x = UserTimerTask 0 e"
    proof cases
      case 1
      then show ?thesis using vran tdkey tdc tdt by blast
    next
      case 2
      then show ?thesis using inv by (simp add: indexInv_def)
    qed
  qed
  have C: "\<forall>x\<in>set (timers tb'). \<exists>w. pendingUserTimers tb' (SequenceID x) = Some w
          \<and> w \<in> ran (pendingTimerInfoIDs ms)
          \<and> expiryField w = SequenceID x AND TimerQueueTimeStampBitmask"
  proof
    fix x assume xin: "x \<in> set (timers tb')"
    show "\<exists>w. pendingUserTimers tb' (SequenceID x) = Some w
          \<and> w \<in> ran (pendingTimerInfoIDs ms)
          \<and> expiryField w = SequenceID x AND TimerQueueTimeStampBitmask"
    proof (cases "SequenceID x = SequenceID td")
      case True
      then show ?thesis using vran tdf by (simp add: put)
    next
      case False
      then have "x \<in> set (timers tb)" using xin tset by auto
      then have "\<exists>w. pendingUserTimers tb (SequenceID x) = Some w
          \<and> w \<in> ran (pendingTimerInfoIDs ms)
          \<and> expiryField w = SequenceID x AND TimerQueueTimeStampBitmask"
        using inv by (simp add: indexInv_def)
      then show ?thesis using False by (simp add: put)
    qed
  qed
  have D: "\<forall>k'\<in>insert k V. \<forall>w. pendingTimerInfoIDs ms k' = Some w \<longrightarrow>
          (\<exists>x\<in>set (timers tb'). SequenceID x AND TimerQueueTimeStampBitmask = expiryField w)"
  proof (intro ballI allI impI)
    fix k' w assume k': "k' \<in> insert k V" and w: "pendingTimerInfoIDs ms k' = Some w"
    show "\<exists>x\<in>set (timers tb'). SequenceID x AND TimerQueueTimeStampBitmask = expiryField w"
    proof (cases "k' = k")
      case True
      then have "w = v" using w kv by simp
      then show ?thesis using tdf tset by auto
    next
      case False
      then have "k' \<in> V" using k' by simp
      then have "\<exists>x\<in>set (timers tb). SequenceID x AND TimerQueueTimeStampBitmask = expiryField w"
        using inv w by (simp add: indexInv_def)
      then show ?thesis using tset by auto
    qed
  qed
  show ?thesis
    unfolding td_def [symmetric] tb'_def [symmetric]
    using A B C D by (simp add: indexInv_def)
qed

lemma LoadUserTimers_loop_inv:
  "indexInv ms V tb \<Longrightarrow> indexInv ms (V \<union> set ks) (LoadUserTimers_loop ms ks tb)"
proof (induction ks arbitrary: V tb)
  case Nil
  then show ?case by simp
next
  case (Cons k ks)
  show ?case
  proof (cases "pendingTimerInfoIDs ms k")
    case None
    have "indexInv ms (insert k V) tb"
      using Cons.prems None by (simp add: indexInv_def)
    from Cons.IH [OF this] show ?thesis using None by simp
  next
    case (Some v)
    from Cons.IH [OF indexInv_step [OF Cons.prems Some]]
    show ?thesis using Some by (simp add: split_beta Let_def)
  qed
qed

lemma LoadUserTimers_inv:
  "indexInv ms (set order) (LoadUserTimers order ms tb)"
proof -
  have "indexInv ms {} (tb\<lparr>timers := [], pendingUserTimers := Map.empty\<rparr>)"
    by (simp add: indexInv_def timersSorted_def)
  from LoadUserTimers_loop_inv [OF this, of order] show ?thesis
    by (simp add: LoadUserTimers_def)
qed

subsection \<open>Adding a user timer\<close>

lemma firstTimer_created:
  assumes "timers tb = td # rest" and "TaskCreated td"
  shows "firstTimer tb = (None, tb)"
  using assms by (simp add: firstTimer_def)

lemma firstTimer_empty:
  assumes "timers tb = []"
  shows "firstTimer tb = (None, tb)"
  using assms by (simp add: firstTimer_def)

lemma firstTimer_new:
  assumes "timers tb = td # rest" and "\<not> TaskCreated td" and "TimerTask td = UserTimerTask 0 e"
  shows "firstTimer tb =
     (Some (UserTimerTask (ConstructTimerKey (SequenceID td AND TimerQueueTimeStampBitmask)
              (fst (NextSeq (seqNumGen tb)))) e),
      tb\<lparr>seqNumGen := snd (NextSeq (seqNumGen tb))\<rparr>)"
  using assms
  by (simp add: firstTimer_def createNewTask_def createUserTimerTask_def DeconstructTimerKey_def
      split_beta Let_def)

lemma AddUserTimer_rejects:
  shows "fireTimeout <s 0 \<Longrightarrow>
      AddUserTimer now order timerID fireTimeout startedID (tb, ms) = (Inl InvalidUserTimeout, tb, ms)"
    and "\<not> fireTimeout <s 0 \<Longrightarrow> pendingTimerInfoIDs ms timerID = Some ti \<Longrightarrow>
      AddUserTimer now order timerID fireTimeout startedID (tb, ms)
        = (Inl (TimerAlreadyExists timerID ti), tb, ms)"
  by (simp_all add: AddUserTimer_def isTimerRunning_def)

lemma AddUserTimer_accepts:
  fixes tb :: timerBuilder and ms :: mutableStateBuilder
    and now fireTimeout startedID :: int64 and timerID :: string and order :: "string list"
  assumes ok: "\<not> fireTimeout <s 0" "pendingTimerInfoIDs ms timerID = None"
  defines "ms1 \<equiv> UpdatePendingTimers timerID
                 \<lparr>TimerID = timerID, ExpiryTime = now + fireTimeout * 1000000000,
                  StartedID = startedID, TaskID = emptyTimerID\<rparr> ms"
  defines "tb1 \<equiv> LoadUserTimers order ms1 tb"
  defines "R \<equiv> AddUserTimer now order timerID fireTimeout startedID (tb, ms)"
  shows "timers tb1 = [] \<Longrightarrow> R = (Inr None, tb1, ms1)"
    and "timers tb1 = td # rest \<Longrightarrow> TaskCreated td \<Longrightarrow> R = (Inr None, tb1, ms1)"
    and "timers tb1 = td # rest \<Longrightarrow> \<not> TaskCreated td \<Longrightarrow>
       \<exists>ti task tb2. pendingUserTimers tb1 (SequenceID td) = Some ti
         \<and> ti \<in> ran (pendingTimerInfoIDs ms1)
         \<and> expiryField ti = SequenceID td AND TimerQueueTimeStampBitmask
         \<and> GetTaskID task \<noteq> emptyTimerID
         \<and> R = (Inr (Some task), tb2,
                UpdatePendingTimers (TimerID ti) (ti\<lparr>TaskID := GetTaskID task\<rparr>) ms1)"
proof -
  have inv: "indexInv ms1 (set order) tb1"
    unfolding tb1_def by (rule LoadUserTimers_inv)
  have unf: "R = (let (timerTask, tb2) = firstTimer tb1
           in case timerTask of
                None \<Rightarrow> (Inr None, tb2, ms1)
              | Some task \<Rightarrow>
                  (case timers tb2 of
                     [] \<Rightarrow> (Inl IndexOutOfRange, tb2, ms1)
                   | td # rest \<Rightarrow>
                       (case pendingUserTimers tb2 (SequenceID td) of
                          None \<Rightarrow> (Inl NilTimerInfo, tb2, ms1)
                        | Some ti \<Rightarrow>
                            (let ti' = ti\<lparr>TaskID := GetTaskID task\<rparr>
                             in (Inr (Some task),
                                 tb2\<lparr>pendingUserTimers := (pendingUserTimers tb2)(SequenceID td \<mapsto> ti')\<rparr>,
                                 UpdatePendingTimers (TimerID ti') ti' ms1)))))"
    unfolding R_def ms1_def tb1_def AddUserTimer_def
    using ok by (simp add: isTimerRunning_def Let_def)
  show "timers tb1 = [] \<Longrightarrow> R = (Inr None, tb1, ms1)"
    by (simp add: unf firstTimer_empty)
  show "timers tb1 = td # rest \<Longrightarrow> TaskCreated td \<Longrightarrow> R = (Inr None, tb1, ms1)"
    by (simp add: unf firstTimer_created)
  show "\<exists>ti task tb2. pendingUserTimers tb1 (SequenceID td) = Some ti
         \<and> ti \<in> ran (pendingTimerInfoIDs ms1)
         \<and> expiryField ti = SequenceID td AND TimerQueueTimeStampBitmask
         \<and> GetTaskID task \<noteq> emptyTimerID
         \<and> R = (Inr (Some task), tb2,
                UpdatePendingTimers (TimerID ti) (ti\<lparr>TaskID := GetTaskID task\<rparr>) ms1)"
    if ts: "timers tb1 = td # rest" and nc: "\<not> TaskCreated td"
  proof -
    have tdin: "td \<in> set (timers tb1)" using ts by simp
    from inv tdin obtain e where e: "TimerTask td = UserTimerTask 0 e"
      unfolding indexInv_def by blast
    from inv tdin obtain ti where ti: "pendingUserTimers tb1 (SequenceID td) = Some ti"
      "ti \<in> ran (pendingTimerInfoIDs ms1)"
      "expiryField ti = SequenceID td AND TimerQueueTimeStampBitmask"
      unfolding indexInv_def by blast
    note ft = firstTimer_new [OF ts nc e]
    let ?task = "UserTimerTask (ConstructTimerKey (SequenceID td AND TimerQueueTimeStampBitmask)
              (fst (NextSeq (seqNumGen tb1)))) e"
    have "R = (Inr (Some ?task),
        tb1\<lparr>seqNumGen := snd (NextSeq (seqNumGen tb1)),
            pendingUserTimers := (pendingUserTimers tb1)(SequenceID td \<mapsto> ti\<lparr>TaskID := GetTaskID ?task\<rparr>)\<rparr>,
        UpdatePendingTimers (TimerID ti) (ti\<lparr>TaskID := GetTaskID ?task\<rparr>) ms1)"
      using ti(1) ts by (simp add: unf ft Let_def)
    moreover have "GetTaskID ?task \<noteq> emptyTimerID"
      by (simp add: key_not_empty)
    ultimately show ?thesis using ti by blast
  qed
qed

text \<open>
  C6. \<open>AddUserTimer\<close> returns an error exactly when \<open>fireTimeout < 0\<close> or the timer
  ID has a pending TimerInfo in the mutable state it is given; no other failure can
  occur. On an error the builder and the mutable state are returned as they were, so
  the check for a duplicate comes before any TimerInfo is stored. A negative timeout
  gives the invalid-timeout error; a duplicate with a valid timeout gives the error
  that names the timer ID and the old timer.
\<close>

theorem AddUserTimer_error_contract:
  "(isl (fst (AddUserTimer now order timerID fireTimeout startedID (tb, ms)))
      \<longleftrightarrow> fireTimeout <s 0 \<or> isTimerRunning timerID ms \<noteq> None)
   \<and> (isl (fst (AddUserTimer now order timerID fireTimeout startedID (tb, ms)))
      \<longrightarrow> snd (AddUserTimer now order timerID fireTimeout startedID (tb, ms)) = (tb, ms))
   \<and> (fireTimeout <s 0
      \<longrightarrow> fst (AddUserTimer now order timerID fireTimeout startedID (tb, ms)) = Inl InvalidUserTimeout)
   \<and> (\<forall>ti. \<not> fireTimeout <s 0 \<and> isTimerRunning timerID ms = Some ti
      \<longrightarrow> fst (AddUserTimer now order timerID fireTimeout startedID (tb, ms))
            = Inl (TimerAlreadyExists timerID ti))"
proof (cases "fireTimeout <s 0")
  case True
  then show ?thesis by (simp add: AddUserTimer_rejects(1))
next
  case neg: False
  show ?thesis
  proof (cases "pendingTimerInfoIDs ms timerID")
    case (Some ti)
    then show ?thesis using neg by (simp add: AddUserTimer_rejects(2) isTimerRunning_def)
  next
    case None
    define ms1 where "ms1 = UpdatePendingTimers timerID
                 \<lparr>TimerID = timerID, ExpiryTime = now + fireTimeout * 1000000000,
                  StartedID = startedID, TaskID = emptyTimerID\<rparr> ms"
    define tb1 where "tb1 = LoadUserTimers order ms1 tb"
    note acc = AddUserTimer_accepts [OF neg None, where now = now and startedID = startedID
      and order = order and tb = tb, folded ms1_def, folded tb1_def]
    have "\<not> isl (fst (AddUserTimer now order timerID fireTimeout startedID (tb, ms)))"
    proof (cases "timers tb1")
      case Nil
      then show ?thesis using acc(1) by simp
    next
      case (Cons td rest)
      show ?thesis
      proof (cases "TaskCreated td")
        case True
        then show ?thesis using acc(2) [OF Cons] by simp
      next
        case False
        from acc(3) [OF Cons False] show ?thesis by auto
      qed
    qed
    then show ?thesis using neg None by (simp add: isTimerRunning_def)
  qed
qed

theorem AddUserTimer_error_contract_witness:
  "fst (AddUserTimer 0 [''a''] ''a'' (- 1) 10 (tb_new, ms_empty)) = Inl InvalidUserTimeout
   \<and> \<not> isl (fst (AddUserTimer 0 [''a''] ''a'' 2 10 (tb_new, ms_empty)))
   \<and> isl (fst (AddUserTimer 0 [''a''] ''a'' 1 12
                 (fst (snd (AddUserTimer 0 [''a''] ''a'' 2 10 (tb_new, ms_empty))),
                  snd (snd (AddUserTimer 0 [''a''] ''a'' 2 10 (tb_new, ms_empty))))))"
proof -
  have a: "(- 1 :: int64) <s 0" and b: "\<not> (2 :: int64) <s 0"
    by (simp_all add: word_sless_alt)
  have c: "isTimerRunning ''a'' ms_empty = None"
    by (simp add: isTimerRunning_def ms_empty_def)
  have d: "isTimerRunning ''a'' (snd (snd (AddUserTimer 0 [''a''] ''a'' 2 10 (tb_new, ms_empty)))) \<noteq> None"
    by code_simp
  show ?thesis
    using AddUserTimer_error_contract [of 0 "[''a'']" "''a''" "- 1" 10 tb_new ms_empty]
      AddUserTimer_error_contract [of 0 "[''a'']" "''a''" 2 10 tb_new ms_empty]
      AddUserTimer_error_contract [of 0 "[''a'']" "''a''" 1 12
        "fst (snd (AddUserTimer 0 [''a''] ''a'' 2 10 (tb_new, ms_empty)))"
        "snd (snd (AddUserTimer 0 [''a''] ''a'' 2 10 (tb_new, ms_empty)))"]
      a b c d
    by blast
qed

subsection \<open>The earliest timer\<close>

lemma AddUserTimer_outcome:
  fixes tb :: timerBuilder and ms :: mutableStateBuilder
  assumes ord: "set order = insert timerID (dom (pendingTimerInfoIDs ms))"
    and ok: "AddUserTimer now order timerID fireTimeout startedID (tb, ms) = (Inr r, tb', ms')"
  defines "ms1 \<equiv> UpdatePendingTimers timerID
     \<lparr>TimerID = timerID, ExpiryTime = now + fireTimeout * 1000000000,
      StartedID = startedID, TaskID = emptyTimerID\<rparr> ms"
  shows "pendingTimerInfoIDs ms timerID = None"
    and "(ms' = ms1
          \<and> (\<exists>v\<in>ran (pendingTimerInfoIDs ms1). TaskID v \<noteq> emptyTimerID
               \<and> (\<forall>u\<in>ran (pendingTimerInfoIDs ms1). expiryField v \<le>s expiryField u)))
       \<or> (\<exists>v ti X. v \<in> ran (pendingTimerInfoIDs ms1) \<and> TaskID v = emptyTimerID
             \<and> (\<forall>u\<in>ran (pendingTimerInfoIDs ms1). expiryField v \<le>s expiryField u)
             \<and> ti \<in> ran (pendingTimerInfoIDs ms1) \<and> expiryField ti = expiryField v
             \<and> X \<noteq> emptyTimerID
             \<and> ms' = UpdatePendingTimers (TimerID ti) (ti\<lparr>TaskID := X\<rparr>) ms1)"
proof -
  define tb1 where "tb1 = LoadUserTimers order ms1 tb"
  have c1: "\<not> fireTimeout <s 0"
    using ok AddUserTimer_rejects(1) [of fireTimeout now order timerID startedID tb ms] by auto
  show c2: "pendingTimerInfoIDs ms timerID = None"
  proof (cases "pendingTimerInfoIDs ms timerID")
    case (Some ti)
    from AddUserTimer_rejects(2) [OF c1 Some, of now order startedID tb] ok show ?thesis by simp
  qed simp
  note acc = AddUserTimer_accepts [OF c1 c2, where now = now and startedID = startedID
      and order = order and tb = tb,
      folded ms1_def, folded tb1_def, unfolded ok]
  have inv: "indexInv ms1 (set order) tb1"
    unfolding tb1_def by (rule LoadUserTimers_inv)
  have p1: "pendingTimerInfoIDs ms1 = (pendingTimerInfoIDs ms)(timerID \<mapsto>
      \<lparr>TimerID = timerID, ExpiryTime = now + fireTimeout * 1000000000,
       StartedID = startedID, TaskID = emptyTimerID\<rparr>)"
    by (simp add: ms1_def UpdatePendingTimers_def)
  have dom1: "dom (pendingTimerInfoIDs ms1) = set order"
    by (simp add: p1 ord)
  have "timerID \<in> set order" using ord by simp
  moreover have "pendingTimerInfoIDs ms1 timerID \<noteq> None" by (simp add: p1)
  ultimately have "\<exists>x. x \<in> set (timers tb1)"
    using inv unfolding indexInv_def by blast
  then obtain td rest where ts: "timers tb1 = td # rest"
    by (cases "timers tb1") auto
  have srt: "\<forall>x\<in>set rest. SequenceID td \<le>s SequenceID x"
    using inv ts by (simp add: indexInv_def timersSorted_def)
  have form: "\<forall>x\<in>set (timers tb1). \<exists>a s. SequenceID x = ConstructTimerKey a s"
    using inv unfolding indexInv_def by blast
  have low: "\<forall>x\<in>set (timers tb1).
      (SequenceID td AND TimerQueueTimeStampBitmask) \<le>s (SequenceID x AND TimerQueueTimeStampBitmask)"
  proof
    fix x assume x: "x \<in> set (timers tb1)"
    then have le: "SequenceID td \<le>s SequenceID x"
      using srt ts by (auto simp add: sle_refl)
    from form x obtain a s where xa: "SequenceID x = ConstructTimerKey a s" by blast
    from form ts obtain b t where tdb: "SequenceID td = ConstructTimerKey b t" by auto
    from key_field_mono [of b t a s] le
    show "(SequenceID td AND TimerQueueTimeStampBitmask) \<le>s (SequenceID x AND TimerQueueTimeStampBitmask)"
      by (simp add: xa tdb con_and_tsmask)
  qed
  have least: "\<forall>u\<in>ran (pendingTimerInfoIDs ms1).
      (SequenceID td AND TimerQueueTimeStampBitmask) \<le>s expiryField u"
  proof
    fix u assume "u \<in> ran (pendingTimerInfoIDs ms1)"
    then obtain k where k: "pendingTimerInfoIDs ms1 k = Some u" by (auto simp add: ran_def)
    then have "k \<in> set order" using dom1 by auto
    with inv k obtain x where "x \<in> set (timers tb1)"
      "SequenceID x AND TimerQueueTimeStampBitmask = expiryField u"
      unfolding indexInv_def by blast
    with low show "(SequenceID td AND TimerQueueTimeStampBitmask) \<le>s expiryField u"
      by auto
  qed
  from inv ts obtain v s where v: "v \<in> ran (pendingTimerInfoIDs ms1)"
      "SequenceID td = ConstructTimerKey (ExpiryTime v) s"
      "TaskCreated td = (TaskID v \<noteq> emptyTimerID)"
    unfolding indexInv_def by fastforce
  have vf: "expiryField v = SequenceID td AND TimerQueueTimeStampBitmask"
    by (simp add: v(2) con_and_tsmask expiryField_def)
  have vleast: "\<forall>u\<in>ran (pendingTimerInfoIDs ms1). expiryField v \<le>s expiryField u"
    using least by (simp add: vf)
  show "(ms' = ms1
          \<and> (\<exists>v\<in>ran (pendingTimerInfoIDs ms1). TaskID v \<noteq> emptyTimerID
               \<and> (\<forall>u\<in>ran (pendingTimerInfoIDs ms1). expiryField v \<le>s expiryField u)))
       \<or> (\<exists>v ti X. v \<in> ran (pendingTimerInfoIDs ms1) \<and> TaskID v = emptyTimerID
             \<and> (\<forall>u\<in>ran (pendingTimerInfoIDs ms1). expiryField v \<le>s expiryField u)
             \<and> ti \<in> ran (pendingTimerInfoIDs ms1) \<and> expiryField ti = expiryField v
             \<and> X \<noteq> emptyTimerID
             \<and> ms' = UpdatePendingTimers (TimerID ti) (ti\<lparr>TaskID := X\<rparr>) ms1)"
  proof (cases "TaskCreated td")
    case True
    from acc(2) [OF ts True] have "ms' = ms1" by simp
    then show ?thesis using v True vleast by auto
  next
    case False
    from acc(3) [OF ts False] obtain ti task tb2 where
      ti: "ti \<in> ran (pendingTimerInfoIDs ms1)"
        "expiryField ti = SequenceID td AND TimerQueueTimeStampBitmask"
        "GetTaskID task \<noteq> emptyTimerID"
      and ms': "ms' = UpdatePendingTimers (TimerID ti) (ti\<lparr>TaskID := GetTaskID task\<rparr>) ms1"
      by auto
    have ve: "TaskID v = emptyTimerID" using v(3) False by simp
    have "v \<in> ran (pendingTimerInfoIDs ms1) \<and> TaskID v = emptyTimerID
             \<and> (\<forall>u\<in>ran (pendingTimerInfoIDs ms1). expiryField v \<le>s expiryField u)
             \<and> ti \<in> ran (pendingTimerInfoIDs ms1) \<and> expiryField ti = expiryField v
             \<and> GetTaskID task \<noteq> emptyTimerID
             \<and> ms' = UpdatePendingTimers (TimerID ti) (ti\<lparr>TaskID := GetTaskID task\<rparr>) ms1"
      using ve v(1) vleast ti ms' vf by simp
    then show ?thesis by blast
  qed
qed

lemma AddUserTimer_earliest:
  fixes tb :: timerBuilder and ms :: mutableStateBuilder
  assumes wf: "keyedByTimerID ms"
    and ord: "set order = insert timerID (dom (pendingTimerInfoIDs ms))"
    and ok: "AddUserTimer now order timerID fireTimeout startedID (tb, ms) = (Inr r, tb', ms')"
  shows "keyedByTimerID ms'"
    and "\<exists>ti\<in>ran (pendingTimerInfoIDs ms'). TaskID ti \<noteq> emptyTimerID
          \<and> (\<forall>ti'\<in>ran (pendingTimerInfoIDs ms'). expiryField ti \<le>s expiryField ti')"
    and "dom (pendingTimerInfoIDs ms') = insert timerID (dom (pendingTimerInfoIDs ms))"
proof -
  define new where "new = \<lparr>TimerID = timerID, ExpiryTime = now + fireTimeout * 1000000000,
      StartedID = startedID, TaskID = emptyTimerID\<rparr>"
  define ms1 where "ms1 = UpdatePendingTimers timerID new ms"
  note out = AddUserTimer_outcome [OF ord ok, folded new_def, folded ms1_def]
  have p1: "pendingTimerInfoIDs ms1 = (pendingTimerInfoIDs ms)(timerID \<mapsto> new)"
    by (simp add: ms1_def UpdatePendingTimers_def)
  have wf1: "keyedByTimerID ms1"
    using wf by (simp add: keyedByTimerID_def p1 new_def)
  have dom1: "dom (pendingTimerInfoIDs ms1) = insert timerID (dom (pendingTimerInfoIDs ms))"
    by (simp add: p1)
  have "keyedByTimerID ms'
    \<and> (\<exists>ti\<in>ran (pendingTimerInfoIDs ms'). TaskID ti \<noteq> emptyTimerID
          \<and> (\<forall>ti'\<in>ran (pendingTimerInfoIDs ms'). expiryField ti \<le>s expiryField ti'))
    \<and> dom (pendingTimerInfoIDs ms') = insert timerID (dom (pendingTimerInfoIDs ms))"
    using out(2)
  proof (elim disjE conjE exE)
    assume "ms' = ms1"
      and "\<exists>v\<in>ran (pendingTimerInfoIDs ms1). TaskID v \<noteq> emptyTimerID
               \<and> (\<forall>u\<in>ran (pendingTimerInfoIDs ms1). expiryField v \<le>s expiryField u)"
    then show ?thesis using wf1 dom1 by simp
  next
    fix v ti X
    assume least: "\<forall>u\<in>ran (pendingTimerInfoIDs ms1). expiryField v \<le>s expiryField u"
      and ti: "ti \<in> ran (pendingTimerInfoIDs ms1)" "expiryField ti = expiryField v"
      and X: "X \<noteq> emptyTimerID"
      and ms': "ms' = UpdatePendingTimers (TimerID ti) (ti\<lparr>TaskID := X\<rparr>) ms1"
    define ti' where "ti' = ti\<lparr>TaskID := X\<rparr>"
    have p': "pendingTimerInfoIDs ms' = (pendingTimerInfoIDs ms1)(TimerID ti \<mapsto> ti')"
      by (simp add: ms' UpdatePendingTimers_def ti'_def)
    have in': "ti' \<in> ran (pendingTimerInfoIDs ms')"
      by (auto simp add: p' ran_def)
    have sub: "ran (pendingTimerInfoIDs ms') \<subseteq> insert ti' (ran (pendingTimerInfoIDs ms1))"
      by (auto simp add: p' ran_def split: if_splits)
    have ef: "expiryField ti' = expiryField v"
      using ti(2) by (simp add: ti'_def expiryField_def)
    have tk: "TaskID ti' \<noteq> emptyTimerID" using X by (simp add: ti'_def)
    have all: "\<forall>u\<in>ran (pendingTimerInfoIDs ms'). expiryField ti' \<le>s expiryField u"
    proof
      fix u assume "u \<in> ran (pendingTimerInfoIDs ms')"
      then consider "u = ti'" | "u \<in> ran (pendingTimerInfoIDs ms1)" using sub by auto
      then show "expiryField ti' \<le>s expiryField u"
        using least by cases (simp_all add: ef sle_refl)
    qed
    have wf': "keyedByTimerID ms'"
      using wf1 by (simp add: keyedByTimerID_def p' ti'_def)
    from ti(1) obtain k where "pendingTimerInfoIDs ms1 k = Some ti" by (auto simp add: ran_def)
    with wf1 have "pendingTimerInfoIDs ms1 (TimerID ti) = Some ti"
      by (auto simp add: keyedByTimerID_def)
    then have "TimerID ti \<in> dom (pendingTimerInfoIDs ms1)" by auto
    then have dom': "dom (pendingTimerInfoIDs ms') = insert timerID (dom (pendingTimerInfoIDs ms))"
      using dom1 by (auto simp add: p')
    show ?thesis using wf' in' tk all dom' by blast
  qed
  then show "keyedByTimerID ms'"
    and "\<exists>ti\<in>ran (pendingTimerInfoIDs ms'). TaskID ti \<noteq> emptyTimerID
          \<and> (\<forall>ti'\<in>ran (pendingTimerInfoIDs ms'). expiryField ti \<le>s expiryField ti')"
    and "dom (pendingTimerInfoIDs ms') = insert timerID (dom (pendingTimerInfoIDs ms))"
    by simp_all
qed

subsection \<open>The keys of one load do not collide\<close>

lemma uint_seq_field:
  fixes c :: int64
  shows "uint ((c + of_nat x) AND TimerQueueSeqNumBitmask) = (uint c + int x) mod 2 ^ 26"
proof -
  have u: "uint (of_nat x :: int64) = int x mod 2 ^ 64"
    by (simp add: uint_nat unat_of_nat of_nat_mod)
  have "uint (c + of_nat x) = (uint c + uint (of_nat x :: int64)) mod 2 ^ 64"
    by (simp add: uint_word_ariths)
  also have "\<dots> = (uint c + int x) mod 2 ^ 64"
    by (simp only: u mod_add_right_eq)
  finally have "uint (c + of_nat x) = (uint c + int x) mod 2 ^ 64" .
  then have "uint ((c + of_nat x) AND TimerQueueSeqNumBitmask) = (uint c + int x) mod 2 ^ 64 mod 2 ^ 26"
    by (simp only: uint_and_seqmask)
  also have "\<dots> = (uint c + int x) mod 2 ^ 26"
    by (rule mod_mod_cancel) simp
  finally show ?thesis .
qed

lemma seq_field_distinct:
  fixes c :: int64
  assumes "j < i" and "i - j < 2 ^ 26"
  shows "(c + of_nat j) AND TimerQueueSeqNumBitmask \<noteq> (c + of_nat i) AND TimerQueueSeqNumBitmask"
proof
  assume eq: "(c + of_nat j) AND TimerQueueSeqNumBitmask = (c + of_nat i) AND TimerQueueSeqNumBitmask"
  then have "uint ((c + of_nat j) AND TimerQueueSeqNumBitmask)
      = uint ((c + of_nat i) AND TimerQueueSeqNumBitmask)"
    by simp
  then have m: "(uint c + int j) mod 2 ^ 26 = (uint c + int i) mod 2 ^ 26"
    by (simp only: uint_seq_field)
  have "((uint c + int i) - (uint c + int j)) mod 2 ^ 26 = 0"
    using m by (metis mod_diff_cong cancel_comm_monoid_add_class.diff_cancel mod_0)
  then have "(int i - int j) mod 67108864 = 0" by simp
  moreover have "0 < int i - int j" "int i - int j < 67108864"
    using assms by simp_all
  ultimately show False by simp
qed

lemma insertTimer_length:
  fixes tb :: timerBuilder and td :: timerDetails
  assumes "timersSorted (timers tb)"
  shows "length (timers (snd (insertTimer td tb))) = Suc (length (timers tb))"
proof -
  let ?ts = "timers tb"
  define i where "i = Search (length ?ts) (\<lambda>i. SequenceID td \<le>s SequenceID (?ts ! i))"
  note f = insertTimer_timers [OF assms, of td, folded i_def]
  show ?thesis using f(2) by (simp add: f(1))
qed

lemma loadUserTimer_counter:
  fixes tb :: timerBuilder and expires :: int64 and task :: Task and taskCreated :: bool
  assumes "timersSorted (timers tb)"
  defines "r \<equiv> loadUserTimer expires task taskCreated tb"
  shows "localSeqNumGen (snd r) = snd (NextSeq (localSeqNumGen tb))"
    and "length (timers (snd r)) = Suc (length (timers tb))"
proof -
  define g where "g = NextSeq (localSeqNumGen tb)"
  define td where "td = \<lparr>SequenceID = ConstructTimerKey expires (fst g),
            TimerTask = task, TaskCreated = taskCreated\<rparr>"
  define tb1 where "tb1 = tb\<lparr>localSeqNumGen := snd g\<rparr>"
  have r: "r = ((td, fst (insertTimer td tb1)), snd (insertTimer td tb1))"
    by (simp add: r_def loadUserTimer_def createTimer_def split_beta Let_def g_def td_def tb1_def)
  have s: "timersSorted (timers tb1)" using assms(1) by (simp add: tb1_def)
  show "localSeqNumGen (snd r) = snd (NextSeq (localSeqNumGen tb))"
    by (simp add: r insertTimer_other tb1_def g_def)
  show "length (timers (snd r)) = Suc (length (timers tb))"
    using insertTimer_length [OF s, of td] by (simp add: r tb1_def)
qed

lemma exactInv_step:
  assumes inv: "exactInv ms c0 tb" and kv: "pendingTimerInfoIDs ms k = Some v"
    and len: "length (timers tb) < 2 ^ 26"
  defines "r \<equiv> loadUserTimer (ExpiryTime v) (UserTimerTask 0 (StartedID v)) (TaskID v \<noteq> emptyTimerID) tb"
  shows "exactInv ms c0
     ((snd r)\<lparr>pendingUserTimers := (pendingUserTimers (snd r))(SequenceID (fst (fst r)) \<mapsto> v)\<rparr>)"
proof -
  define n where "n = length (timers tb)"
  have srt: "timersSorted (timers tb)" using inv by (simp add: exactInv_def)
  have gen: "localSeqNumGen tb = localSeqNumGenerator (c0 + of_nat n)"
    using inv by (simp add: exactInv_def n_def)
  note f = loadUserTimer_facts [OF srt, of "ExpiryTime v" "UserTimerTask 0 (StartedID v)"
      "TaskID v \<noteq> emptyTimerID", folded r_def]
  note g = loadUserTimer_counter [OF srt, of "ExpiryTime v" "UserTimerTask 0 (StartedID v)"
      "TaskID v \<noteq> emptyTimerID", folded r_def]
  define td where "td = fst (fst r)"
  define tb' where "tb' = (snd r)\<lparr>pendingUserTimers := (pendingUserTimers (snd r))(SequenceID td \<mapsto> v)\<rparr>"
  have vran: "v \<in> ran (pendingTimerInfoIDs ms)" using kv by (auto simp add: ran_def)
  have tdkey: "SequenceID td = ConstructTimerKey (ExpiryTime v) (c0 + of_nat (Suc n))"
    and tdc: "TaskCreated td = (TaskID v \<noteq> emptyTimerID)"
    and tdt: "TimerTask td = UserTimerTask 0 (StartedID v)"
    by (simp_all add: td_def f(1) gen ac_simps)
  have tdf: "SequenceID td AND TimerQueueTimeStampBitmask = expiryField v"
    by (simp add: tdkey con_and_tsmask expiryField_def)
  have tds: "SequenceID td AND TimerQueueSeqNumBitmask = (c0 + of_nat (Suc n)) AND TimerQueueSeqNumBitmask"
    by (simp only: tdkey con_and_seqmask)
  have tset: "set (timers tb') = insert td (set (timers tb))"
    by (simp add: tb'_def f(3) td_def)
  have tlen: "length (timers tb') = Suc n"
    by (simp add: tb'_def g(2) n_def)
  have put: "pendingUserTimers tb' = (pendingUserTimers tb)(SequenceID td \<mapsto> v)"
    by (simp add: tb'_def f(4))
  have gen': "localSeqNumGen tb' = localSeqNumGenerator (c0 + of_nat (length (timers tb')))"
    by (simp add: tlen) (simp add: tb'_def g(1) gen ac_simps)
  have A: "timersSorted (timers tb')" by (simp add: tb'_def f(2))
  have old: "\<forall>x\<in>set (timers tb). \<exists>j. 1 \<le> j \<and> j \<le> n
          \<and> SequenceID x AND TimerQueueSeqNumBitmask = (c0 + of_nat j) AND TimerQueueSeqNumBitmask"
    using inv by (simp add: exactInv_def n_def)
  have fresh: "\<forall>x\<in>set (timers tb). SequenceID x \<noteq> SequenceID td"
  proof
    fix x assume "x \<in> set (timers tb)"
    with old obtain j where j: "1 \<le> j" "j \<le> n"
      "SequenceID x AND TimerQueueSeqNumBitmask = (c0 + of_nat j) AND TimerQueueSeqNumBitmask"
      by blast
    have "j < Suc n" "Suc n - j < 2 ^ 26" using j(1,2) len by (simp_all add: n_def)
    from seq_field_distinct [OF this, of c0] j(3) tds
    show "SequenceID x \<noteq> SequenceID td" by auto
  qed
  have S: "\<forall>x\<in>set (timers tb'). \<exists>j. 1 \<le> j \<and> j \<le> length (timers tb')
          \<and> SequenceID x AND TimerQueueSeqNumBitmask = (c0 + of_nat j) AND TimerQueueSeqNumBitmask"
  proof
    fix x assume "x \<in> set (timers tb')"
    then consider "x = td" | "x \<in> set (timers tb)" using tset by auto
    then show "\<exists>j. 1 \<le> j \<and> j \<le> length (timers tb')
          \<and> SequenceID x AND TimerQueueSeqNumBitmask = (c0 + of_nat j) AND TimerQueueSeqNumBitmask"
    proof cases
      case 1
      then show ?thesis using tds tlen by (intro exI [of _ "Suc n"]) simp
    next
      case 2
      with old obtain j where "1 \<le> j" "j \<le> n"
        "SequenceID x AND TimerQueueSeqNumBitmask = (c0 + of_nat j) AND TimerQueueSeqNumBitmask"
        by blast
      then show ?thesis using tlen by (intro exI [of _ j]) simp
    qed
  qed
  have E: "\<forall>x\<in>set (timers tb'). \<exists>w. pendingUserTimers tb' (SequenceID x) = Some w
          \<and> w \<in> ran (pendingTimerInfoIDs ms)
          \<and> SequenceID x AND TimerQueueTimeStampBitmask = expiryField w
          \<and> TaskCreated x = (TaskID w \<noteq> emptyTimerID)
          \<and> TimerTask x = UserTimerTask 0 (StartedID w)"
  proof
    fix x assume "x \<in> set (timers tb')"
    then consider "x = td" | "x \<in> set (timers tb)" using tset by auto
    then show "\<exists>w. pendingUserTimers tb' (SequenceID x) = Some w
          \<and> w \<in> ran (pendingTimerInfoIDs ms)
          \<and> SequenceID x AND TimerQueueTimeStampBitmask = expiryField w
          \<and> TaskCreated x = (TaskID w \<noteq> emptyTimerID)
          \<and> TimerTask x = UserTimerTask 0 (StartedID w)"
    proof cases
      case 1
      then show ?thesis using vran tdf tdc tdt by (simp add: put)
    next
      case 2
      then have ne: "SequenceID x \<noteq> SequenceID td" using fresh by blast
      from 2 inv have "\<exists>w. pendingUserTimers tb (SequenceID x) = Some w
          \<and> w \<in> ran (pendingTimerInfoIDs ms)
          \<and> SequenceID x AND TimerQueueTimeStampBitmask = expiryField w
          \<and> TaskCreated x = (TaskID w \<noteq> emptyTimerID)
          \<and> TimerTask x = UserTimerTask 0 (StartedID w)"
        by (simp add: exactInv_def)
      then show ?thesis using ne by (simp add: put)
    qed
  qed
  show ?thesis
    unfolding td_def [symmetric] tb'_def [symmetric]
    using A gen' S E by (simp add: exactInv_def)
qed

lemma LoadUserTimers_loop_exact:
  "exactInv ms c0 tb \<Longrightarrow> length (timers tb) + length ks \<le> 2 ^ 26 \<Longrightarrow>
   exactInv ms c0 (LoadUserTimers_loop ms ks tb)"
proof (induction ks arbitrary: tb)
  case Nil
  then show ?case by simp
next
  case (Cons k ks)
  show ?case
  proof (cases "pendingTimerInfoIDs ms k")
    case None
    have "length (timers tb) + length ks \<le> 2 ^ 26" using Cons.prems(2) by simp
    from Cons.IH [OF Cons.prems(1) this] show ?thesis using None by simp
  next
    case (Some v)
    have srt: "timersSorted (timers tb)" using Cons.prems(1) by (simp add: exactInv_def)
    have len: "length (timers tb) < 2 ^ 26" using Cons.prems(2) by simp
    define r where "r = loadUserTimer (ExpiryTime v) (UserTimerTask 0 (StartedID v))
        (TaskID v \<noteq> emptyTimerID) tb"
    define tb' where "tb' = (snd r)\<lparr>pendingUserTimers :=
        (pendingUserTimers (snd r))(SequenceID (fst (fst r)) \<mapsto> v)\<rparr>"
    have inv': "exactInv ms c0 tb'"
      unfolding tb'_def r_def by (rule exactInv_step [OF Cons.prems(1) Some len])
    have "length (timers tb') = Suc (length (timers tb))"
      using loadUserTimer_counter(2) [OF srt, of "ExpiryTime v" "UserTimerTask 0 (StartedID v)"
        "TaskID v \<noteq> emptyTimerID"]
      by (simp add: tb'_def r_def)
    then have "length (timers tb') + length ks \<le> 2 ^ 26" using Cons.prems(2) by simp
    from Cons.IH [OF inv' this] show ?thesis
      using Some by (simp add: split_beta Let_def tb'_def r_def)
  qed
qed

lemma LoadUserTimers_exact:
  assumes "usesLocalCounter tb" and "length order \<le> 2 ^ 26"
  shows "\<exists>c0. exactInv ms c0 (LoadUserTimers order ms tb)"
proof -
  from assms(1) obtain c where c: "localSeqNumGen tb = localSeqNumGenerator c"
    by (cases "localSeqNumGen tb") (simp_all add: usesLocalCounter_def)
  have "exactInv ms c (tb\<lparr>timers := [], pendingUserTimers := Map.empty\<rparr>)"
    by (simp add: exactInv_def timersSorted_def c)
  from LoadUserTimers_loop_exact [OF this, of order] assms(2) show ?thesis
    by (auto simp add: LoadUserTimers_def)
qed

lemma loadUserTimer_local:
  "localSeqNumGen (snd (loadUserTimer expires task taskCreated tb)) = snd (NextSeq (localSeqNumGen tb))"
  by (simp add: loadUserTimer_def createTimer_def split_beta Let_def insertTimer_other)

lemma NextSeq_local:
  "usesLocalCounter tb \<Longrightarrow> localSeqNumGen tb' = snd (NextSeq (localSeqNumGen tb)) \<Longrightarrow>
   usesLocalCounter tb'"
  by (cases "localSeqNumGen tb") (simp_all add: usesLocalCounter_def)

lemma LoadUserTimers_loop_local:
  "usesLocalCounter tb \<Longrightarrow> usesLocalCounter (LoadUserTimers_loop ms ks tb)"
proof (induction ks arbitrary: tb)
  case Nil
  then show ?case by simp
next
  case (Cons k ks)
  show ?case
  proof (cases "pendingTimerInfoIDs ms k")
    case None
    then show ?thesis using Cons by simp
  next
    case (Some v)
    define r where "r = loadUserTimer (ExpiryTime v) (UserTimerTask 0 (StartedID v))
        (TaskID v \<noteq> emptyTimerID) tb"
    define tb' where "tb' = (snd r)\<lparr>pendingUserTimers :=
        (pendingUserTimers (snd r))(SequenceID (fst (fst r)) \<mapsto> v)\<rparr>"
    have "localSeqNumGen tb' = snd (NextSeq (localSeqNumGen tb))"
      by (simp add: tb'_def r_def loadUserTimer_local)
    then have "usesLocalCounter tb'" by (rule NextSeq_local [OF Cons.prems])
    from Cons.IH [OF this] show ?thesis
      using Some by (simp add: split_beta Let_def tb'_def r_def)
  qed
qed

lemma firstTimer_local: "localSeqNumGen (snd (firstTimer tb)) = localSeqNumGen tb"
  by (simp add: firstTimer_def createNewTask_def createUserTimerTask_def split_beta Let_def
      split: list.splits Task.splits TaskType.splits)

subsection \<open>The effect of one call\<close>

lemma con_masked:
  "x AND TimerQueueTimeStampBitmask = y AND TimerQueueTimeStampBitmask \<Longrightarrow>
   ConstructTimerKey x s = ConstructTimerKey y s"
  by (simp add: ConstructTimerKey_def)

lemma AddUserTimer_unfold:
  fixes tb :: timerBuilder and ms :: mutableStateBuilder
    and now fireTimeout startedID :: int64 and timerID :: string and order :: "string list"
  assumes ok: "\<not> fireTimeout <s 0" "pendingTimerInfoIDs ms timerID = None"
  defines "ms1 \<equiv> UpdatePendingTimers timerID
                 \<lparr>TimerID = timerID, ExpiryTime = now + fireTimeout * 1000000000,
                  StartedID = startedID, TaskID = emptyTimerID\<rparr> ms"
  defines "tb1 \<equiv> LoadUserTimers order ms1 tb"
  shows "AddUserTimer now order timerID fireTimeout startedID (tb, ms) =
          (let (timerTask, tb2) = firstTimer tb1
           in case timerTask of
                None \<Rightarrow> (Inr None, tb2, ms1)
              | Some task \<Rightarrow>
                  (case timers tb2 of
                     [] \<Rightarrow> (Inl IndexOutOfRange, tb2, ms1)
                   | td # rest \<Rightarrow>
                       (case pendingUserTimers tb2 (SequenceID td) of
                          None \<Rightarrow> (Inl NilTimerInfo, tb2, ms1)
                        | Some ti \<Rightarrow>
                            (let ti' = ti\<lparr>TaskID := GetTaskID task\<rparr>
                             in (Inr (Some task),
                                 tb2\<lparr>pendingUserTimers := (pendingUserTimers tb2)(SequenceID td \<mapsto> ti')\<rparr>,
                                 UpdatePendingTimers (TimerID ti') ti' ms1)))))"
  unfolding ms1_def tb1_def AddUserTimer_def
  using ok by (simp add: isTimerRunning_def Let_def)

lemma AddUserTimer_new_task:
  fixes tb :: timerBuilder and ms :: mutableStateBuilder
    and now fireTimeout startedID :: int64 and timerID :: string and order :: "string list"
  assumes ok: "\<not> fireTimeout <s 0" "pendingTimerInfoIDs ms timerID = None"
  defines "ms1 \<equiv> UpdatePendingTimers timerID
                 \<lparr>TimerID = timerID, ExpiryTime = now + fireTimeout * 1000000000,
                  StartedID = startedID, TaskID = emptyTimerID\<rparr> ms"
  defines "tb1 \<equiv> LoadUserTimers order ms1 tb"
  defines "key \<equiv> \<lambda>td. ConstructTimerKey (SequenceID td AND TimerQueueTimeStampBitmask)
              (fst (NextSeq (seqNumGen tb1)))"
  shows "timers tb1 = td # rest \<Longrightarrow> \<not> TaskCreated td \<Longrightarrow> TimerTask td = UserTimerTask 0 e \<Longrightarrow>
     pendingUserTimers tb1 (SequenceID td) = Some ti \<Longrightarrow>
     AddUserTimer now order timerID fireTimeout startedID (tb, ms) =
       (Inr (Some (UserTimerTask (key td) e)),
        tb1\<lparr>seqNumGen := snd (NextSeq (seqNumGen tb1)),
            pendingUserTimers := (pendingUserTimers tb1)(SequenceID td \<mapsto> ti\<lparr>TaskID := key td\<rparr>)\<rparr>,
        UpdatePendingTimers (TimerID ti) (ti\<lparr>TaskID := key td\<rparr>) ms1)"
proof -
  assume ts: "timers tb1 = td # rest" and nc: "\<not> TaskCreated td"
    and e: "TimerTask td = UserTimerTask 0 e"
    and ti: "pendingUserTimers tb1 (SequenceID td) = Some ti"
  note unf = AddUserTimer_unfold [OF ok, of now order startedID tb, folded ms1_def, folded tb1_def]
  note ft = firstTimer_new [OF ts nc e]
  show ?thesis
    using ti ts by (simp add: unf ft Let_def key_def)
qed

lemma front_least:
  assumes inv: "indexInv ms1 (set order) tb1"
    and dom1: "dom (pendingTimerInfoIDs ms1) = set order"
    and ts: "timers tb1 = td # rest"
  shows "\<forall>u\<in>ran (pendingTimerInfoIDs ms1).
      (SequenceID td AND TimerQueueTimeStampBitmask) \<le>s expiryField u"
proof -
  have srt: "\<forall>x\<in>set rest. SequenceID td \<le>s SequenceID x"
    using inv ts by (simp add: indexInv_def timersSorted_def)
  have form: "\<forall>x\<in>set (timers tb1). \<exists>a s. SequenceID x = ConstructTimerKey a s"
    using inv unfolding indexInv_def by blast
  have low: "\<forall>x\<in>set (timers tb1).
      (SequenceID td AND TimerQueueTimeStampBitmask) \<le>s (SequenceID x AND TimerQueueTimeStampBitmask)"
  proof
    fix x assume x: "x \<in> set (timers tb1)"
    then have le: "SequenceID td \<le>s SequenceID x"
      using srt ts by (auto simp add: sle_refl)
    from form x obtain a s where xa: "SequenceID x = ConstructTimerKey a s" by blast
    from form ts obtain b t where tdb: "SequenceID td = ConstructTimerKey b t" by auto
    from key_field_mono [of b t a s] le
    show "(SequenceID td AND TimerQueueTimeStampBitmask) \<le>s (SequenceID x AND TimerQueueTimeStampBitmask)"
      by (simp add: xa tdb con_and_tsmask)
  qed
  show ?thesis
  proof
    fix u assume "u \<in> ran (pendingTimerInfoIDs ms1)"
    then obtain k where k: "pendingTimerInfoIDs ms1 k = Some u" by (auto simp add: ran_def)
    then have "k \<in> set order" using dom1 by auto
    with inv k obtain x where "x \<in> set (timers tb1)"
      "SequenceID x AND TimerQueueTimeStampBitmask = expiryField u"
      unfolding indexInv_def by blast
    with low show "(SequenceID td AND TimerQueueTimeStampBitmask) \<le>s expiryField u"
      by auto
  qed
qed

lemma AddUserTimer_effect:
  fixes tb :: timerBuilder and ms :: mutableStateBuilder
  assumes wf: "keyedByTimerID ms"
    and ord: "set (callOrder c) = insert (callTimerID c) (dom (pendingTimerInfoIDs ms))"
    and len: "length (callOrder c) \<le> 2 ^ TimerQueueSeqNumBits"
    and loc: "usesLocalCounter tb"
    and ok: "AddUserTimer_call c (tb, ms) = (Inr r, tb', ms')"
  shows "callEffect c ms r ms'" and "usesLocalCounter tb'"
proof -
  define new where "new = \<lparr>TimerID = callTimerID c,
      ExpiryTime = callNow c + callFireTimeout c * 1000000000,
      StartedID = callStartedID c, TaskID = emptyTimerID\<rparr>"
  define ms1 where "ms1 = UpdatePendingTimers (callTimerID c) new ms"
  define tb1 where "tb1 = LoadUserTimers (callOrder c) ms1 tb"
  note ok' = ok [unfolded AddUserTimer_call_def]
  have c1: "\<not> callFireTimeout c <s 0"
    using ok' AddUserTimer_rejects(1) [of "callFireTimeout c" "callNow c" "callOrder c"
        "callTimerID c" "callStartedID c" tb ms] by auto
  have c2: "pendingTimerInfoIDs ms (callTimerID c) = None"
  proof (cases "pendingTimerInfoIDs ms (callTimerID c)")
    case (Some ti)
    from AddUserTimer_rejects(2) [OF c1 Some, of "callNow c" "callOrder c" "callStartedID c" tb] ok'
    show ?thesis by simp
  qed simp
  note acc = AddUserTimer_accepts [OF c1 c2, where now = "callNow c" and startedID = "callStartedID c"
      and order = "callOrder c" and tb = tb,
      folded new_def, folded ms1_def, folded tb1_def, unfolded ok']
  note nt = AddUserTimer_new_task [OF c1 c2, where now = "callNow c" and startedID = "callStartedID c"
      and order = "callOrder c" and tb = tb,
      folded new_def, folded ms1_def, folded tb1_def, unfolded ok']
  have inv: "indexInv ms1 (set (callOrder c)) tb1"
    unfolding tb1_def by (rule LoadUserTimers_inv)
  have len': "length (callOrder c) \<le> 2 ^ 26" using len by (simp add: TimerQueueSeqNumBits_def)
  from LoadUserTimers_exact [OF loc len', of ms1] obtain c0 where ex: "exactInv ms1 c0 tb1"
    unfolding tb1_def by blast
  have l1: "usesLocalCounter tb1"
    using ex by (simp add: exactInv_def usesLocalCounter_def)
  have p1: "pendingTimerInfoIDs ms1 = (pendingTimerInfoIDs ms)(callTimerID c \<mapsto> new)"
    by (simp add: ms1_def UpdatePendingTimers_def)
  have wf1: "keyedByTimerID ms1"
    using wf by (simp add: keyedByTimerID_def p1 new_def)
  have dom1: "dom (pendingTimerInfoIDs ms1) = set (callOrder c)"
    by (simp add: p1 ord)
  have "callTimerID c \<in> set (callOrder c)" using ord by simp
  moreover have "pendingTimerInfoIDs ms1 (callTimerID c) \<noteq> None" by (simp add: p1)
  ultimately have "\<exists>x. x \<in> set (timers tb1)"
    using inv unfolding indexInv_def by blast
  then obtain td rest where ts: "timers tb1 = td # rest"
    by (cases "timers tb1") auto
  note least = front_least [OF inv dom1 ts]
  from ex ts obtain v where v: "pendingUserTimers tb1 (SequenceID td) = Some v"
      "v \<in> ran (pendingTimerInfoIDs ms1)"
      "SequenceID td AND TimerQueueTimeStampBitmask = expiryField v"
      "TaskCreated td = (TaskID v \<noteq> emptyTimerID)"
      "TimerTask td = UserTimerTask 0 (StartedID v)"
    unfolding exactInv_def by fastforce
  have vleast: "\<forall>u\<in>ran (pendingTimerInfoIDs ms1). expiryField v \<le>s expiryField u"
    using least by (simp add: v(3))
  have "callEffect c ms r ms' \<and> usesLocalCounter tb'"
  proof (cases "TaskCreated td")
    case True
    from acc(2) [OF ts True] have eq: "r = None" "tb' = tb1" "ms' = ms1" by simp_all
    have "\<exists>v\<in>ran (pendingTimerInfoIDs ms1). TaskID v \<noteq> emptyTimerID
                  \<and> (\<forall>u\<in>ran (pendingTimerInfoIDs ms1). expiryField v \<le>s expiryField u)"
      using v(2,4) True vleast by blast
    then show ?thesis
      using l1 by (simp add: eq callEffect_def Let_def new_def [symmetric] ms1_def [symmetric])
  next
    case False
    define seq where "seq = fst (NextSeq (seqNumGen tb1))"
    define key where "key = ConstructTimerKey (SequenceID td AND TimerQueueTimeStampBitmask) seq"
    from nt [OF ts False v(5) v(1)]
    have eq: "r = Some (UserTimerTask key (StartedID v))"
      "tb' = tb1\<lparr>seqNumGen := snd (NextSeq (seqNumGen tb1)),
            pendingUserTimers := (pendingUserTimers tb1)(SequenceID td \<mapsto> v\<lparr>TaskID := key\<rparr>)\<rparr>"
      "ms' = UpdatePendingTimers (TimerID v) (v\<lparr>TaskID := key\<rparr>) ms1"
      by (simp_all add: key_def seq_def)
    have ve: "TaskID v = emptyTimerID" using v(4) False by simp
    from v(2) obtain k where "pendingTimerInfoIDs ms1 k = Some v" by (auto simp add: ran_def)
    with wf1 have kv: "pendingTimerInfoIDs ms1 (TimerID v) = Some v"
      by (auto simp add: keyedByTimerID_def)
    have "(SequenceID td AND TimerQueueTimeStampBitmask) AND TimerQueueTimeStampBitmask
        = ExpiryTime v AND TimerQueueTimeStampBitmask"
      using v(3) by (simp add: expiryField_def)
    then have keyv: "key = ConstructTimerKey (ExpiryTime v) seq"
      unfolding key_def by (rule con_masked)
    have kne: "key \<noteq> emptyTimerID" by (simp add: keyv key_not_empty)
    have "pendingTimerInfoIDs ms1 (TimerID v) = Some v \<and> TaskID v = emptyTimerID
                \<and> (\<forall>u\<in>ran (pendingTimerInfoIDs ms1). expiryField v \<le>s expiryField u)
                \<and> UserTimerTask key (StartedID v)
                    = UserTimerTask (ConstructTimerKey (ExpiryTime v) seq) (StartedID v)
                \<and> GetTaskID (UserTimerTask key (StartedID v)) \<noteq> emptyTimerID
                \<and> ms' = UpdatePendingTimers (TimerID v)
                    (v\<lparr>TaskID := GetTaskID (UserTimerTask key (StartedID v))\<rparr>) ms1"
      using kv ve vleast keyv kne eq(3) by simp
    then have "\<exists>k ti seq. pendingTimerInfoIDs ms1 k = Some ti \<and> TaskID ti = emptyTimerID
                \<and> (\<forall>u\<in>ran (pendingTimerInfoIDs ms1). expiryField ti \<le>s expiryField u)
                \<and> UserTimerTask key (StartedID v)
                    = UserTimerTask (ConstructTimerKey (ExpiryTime ti) seq) (StartedID ti)
                \<and> GetTaskID (UserTimerTask key (StartedID v)) \<noteq> emptyTimerID
                \<and> ms' = UpdatePendingTimers k
                    (ti\<lparr>TaskID := GetTaskID (UserTimerTask key (StartedID v))\<rparr>) ms1"
      by blast
    moreover have "usesLocalCounter tb'"
      using l1 by (simp add: eq(2) usesLocalCounter_def)
    ultimately show ?thesis
      by (simp add: eq(1) callEffect_def Let_def new_def [symmetric] ms1_def [symmetric])
  qed
  then show "callEffect c ms r ms'" and "usesLocalCounter tb'" by simp_all
qed

subsection \<open>Runs of calls\<close>

lemma AddUserTimers_Cons:
  assumes "AddUserTimers (c # cs) (tb, ms) = Inr (tb', ms')"
  shows "\<exists>r tb1 ms1. AddUserTimer_call c (tb, ms) = (Inr r, tb1, ms1)
          \<and> AddUserTimers cs (tb1, ms1) = Inr (tb', ms')"
proof -
  obtain res tb1 ms1 where step: "AddUserTimer_call c (tb, ms) = (res, tb1, ms1)"
    by (cases "AddUserTimer_call c (tb, ms)") auto
  from assms step obtain r where r: "res = Inr r"
    by (cases res) auto
  have "AddUserTimers cs (tb1, ms1) = Inr (tb', ms')"
    using assms step r by simp
  then show ?thesis using step r by blast
qed

lemma run_earliest:
  "keyedByTimerID ms \<Longrightarrow> calls \<noteq> [] \<Longrightarrow> rangeOrders calls (tb, ms) \<Longrightarrow>
   AddUserTimers calls (tb, ms) = Inr (tb', ms') \<Longrightarrow>
   \<exists>ti\<in>ran (pendingTimerInfoIDs ms'). TaskID ti \<noteq> emptyTimerID
          \<and> (\<forall>ti'\<in>ran (pendingTimerInfoIDs ms'). expiryField ti \<le>s expiryField ti')"
proof (induction calls arbitrary: tb ms)
  case Nil
  then show ?case by simp
next
  case (Cons c cs)
  from AddUserTimers_Cons [OF Cons.prems(4)] obtain r tb1 ms1 where
    step: "AddUserTimer_call c (tb, ms) = (Inr r, tb1, ms1)"
    and rest: "AddUserTimers cs (tb1, ms1) = Inr (tb', ms')"
    by blast
  have ord: "set (callOrder c) = insert (callTimerID c) (dom (pendingTimerInfoIDs ms))"
    using Cons.prems(3) by (simp add: rangesOver_def)
  note one = AddUserTimer_earliest [OF Cons.prems(1) ord step [unfolded AddUserTimer_call_def]]
  show ?case
  proof (cases "cs = []")
    case True
    then have "ms' = ms1" using rest by simp
    then show ?thesis using one(2) by simp
  next
    case False
    have "rangeOrders cs (tb1, ms1)"
      using Cons.prems(3) step by simp
    from Cons.IH [OF one(1) False this rest] show ?thesis .
  qed
qed

lemma keeps_step:
  fixes tb :: timerBuilder and ms :: mutableStateBuilder
  assumes wf: "keyedByTimerID ms"
    and ord: "set (callOrder c) = insert (callTimerID c) (dom (pendingTimerInfoIDs ms))"
    and len: "length (callOrder c) \<le> 2 ^ TimerQueueSeqNumBits"
    and loc: "usesLocalCounter tb"
    and ok: "AddUserTimer_call c (tb, ms) = (Inr r, tb', ms')"
    and kv: "pendingTimerInfoIDs ms k = Some v" and t: "TaskID v \<noteq> emptyTimerID"
  shows "pendingTimerInfoIDs ms' k = Some v"
proof -
  define new where "new = \<lparr>TimerID = callTimerID c,
      ExpiryTime = callNow c + callFireTimeout c * 1000000000,
      StartedID = callStartedID c, TaskID = emptyTimerID\<rparr>"
  define ms1 where "ms1 = UpdatePendingTimers (callTimerID c) new ms"
  have none: "pendingTimerInfoIDs ms (callTimerID c) = None"
    by (rule AddUserTimer_outcome(1) [OF ord ok [unfolded AddUserTimer_call_def]])
  have p1: "pendingTimerInfoIDs ms1 = (pendingTimerInfoIDs ms)(callTimerID c \<mapsto> new)"
    by (simp add: ms1_def UpdatePendingTimers_def)
  have ne: "k \<noteq> callTimerID c" using kv none by auto
  have k1: "pendingTimerInfoIDs ms1 k = Some v" using kv ne by (simp add: p1)
  note eff = AddUserTimer_effect(1) [OF wf ord len loc ok, unfolded callEffect_def Let_def,
      folded new_def, folded ms1_def]
  show ?thesis
  proof (cases r)
    case None
    then have "ms' = ms1" using eff by simp
    then show ?thesis using k1 by simp
  next
    case (Some task)
    with eff obtain k' ti where ti: "pendingTimerInfoIDs ms1 k' = Some ti"
      "TaskID ti = emptyTimerID"
      and ms': "ms' = UpdatePendingTimers k' (ti\<lparr>TaskID := GetTaskID task\<rparr>) ms1"
      by auto
    have "k \<noteq> k'" using k1 ti t by auto
    then show ?thesis using k1 by (simp add: ms' UpdatePendingTimers_def)
  qed
qed

lemma keeps_run:
  "keyedByTimerID ms \<Longrightarrow> usesLocalCounter tb \<Longrightarrow>
   \<forall>c\<in>set calls. length (callOrder c) \<le> 2 ^ TimerQueueSeqNumBits \<Longrightarrow>
   rangeOrders calls (tb, ms) \<Longrightarrow> AddUserTimers calls (tb, ms) = Inr (tb', ms') \<Longrightarrow>
   pendingTimerInfoIDs ms k = Some v \<Longrightarrow> TaskID v \<noteq> emptyTimerID \<Longrightarrow>
   pendingTimerInfoIDs ms' k = Some v"
proof (induction calls arbitrary: tb ms)
  case Nil
  then show ?case by simp
next
  case (Cons c cs)
  from AddUserTimers_Cons [OF Cons.prems(5)] obtain r tb1 ms1 where
    step: "AddUserTimer_call c (tb, ms) = (Inr r, tb1, ms1)"
    and rest: "AddUserTimers cs (tb1, ms1) = Inr (tb', ms')"
    by blast
  have ord: "set (callOrder c) = insert (callTimerID c) (dom (pendingTimerInfoIDs ms))"
    using Cons.prems(4) by (simp add: rangesOver_def)
  have len: "length (callOrder c) \<le> 2 ^ TimerQueueSeqNumBits"
    using Cons.prems(3) by simp
  have wf1: "keyedByTimerID ms1"
    by (rule AddUserTimer_earliest(1) [OF Cons.prems(1) ord step [unfolded AddUserTimer_call_def]])
  have loc1: "usesLocalCounter tb1"
    by (rule AddUserTimer_effect(2) [OF Cons.prems(1) ord len Cons.prems(2) step])
  have lens: "\<forall>c\<in>set cs. length (callOrder c) \<le> 2 ^ TimerQueueSeqNumBits"
    using Cons.prems(3) by simp
  have ro: "rangeOrders cs (tb1, ms1)" using Cons.prems(4) step by simp
  have k1: "pendingTimerInfoIDs ms1 k = Some v"
    by (rule keeps_step [OF Cons.prems(1) ord len Cons.prems(2) step Cons.prems(6) Cons.prems(7)])
  from Cons.IH [OF wf1 loc1 lens ro rest k1 Cons.prems(7)] show ?case .
qed

lemma run_effects:
  "keyedByTimerID ms \<Longrightarrow> usesLocalCounter tb \<Longrightarrow>
   \<forall>c\<in>set calls. length (callOrder c) \<le> 2 ^ TimerQueueSeqNumBits \<Longrightarrow>
   rangeOrders calls (tb, ms) \<Longrightarrow> AddUserTimers calls (tb, ms) = Inr (tb', ms') \<Longrightarrow>
   calls = pre @ c # post \<Longrightarrow>
   \<exists>tb1 ms1 r tb2 ms2. AddUserTimers pre (tb, ms) = Inr (tb1, ms1)
      \<and> AddUserTimer_call c (tb1, ms1) = (Inr r, tb2, ms2)
      \<and> AddUserTimers post (tb2, ms2) = Inr (tb', ms')
      \<and> callEffect c ms1 r ms2
      \<and> (\<forall>k v. pendingTimerInfoIDs ms2 k = Some v \<and> TaskID v \<noteq> emptyTimerID
            \<longrightarrow> pendingTimerInfoIDs ms' k = Some v)"
proof (induction pre arbitrary: calls tb ms)
  case Nil
  then have calls: "calls = c # post" by simp
  from AddUserTimers_Cons [OF Nil.prems(5) [unfolded calls]] obtain r tb2 ms2 where
    step: "AddUserTimer_call c (tb, ms) = (Inr r, tb2, ms2)"
    and rest: "AddUserTimers post (tb2, ms2) = Inr (tb', ms')"
    by blast
  have ord: "set (callOrder c) = insert (callTimerID c) (dom (pendingTimerInfoIDs ms))"
    using Nil.prems(4) by (simp add: calls rangesOver_def)
  have len: "length (callOrder c) \<le> 2 ^ TimerQueueSeqNumBits"
    using Nil.prems(3) by (simp add: calls)
  note eff = AddUserTimer_effect [OF Nil.prems(1) ord len Nil.prems(2) step]
  have wf2: "keyedByTimerID ms2"
    by (rule AddUserTimer_earliest(1) [OF Nil.prems(1) ord step [unfolded AddUserTimer_call_def]])
  have lens: "\<forall>c\<in>set post. length (callOrder c) \<le> 2 ^ TimerQueueSeqNumBits"
    using Nil.prems(3) by (simp add: calls)
  have ro: "rangeOrders post (tb2, ms2)" using Nil.prems(4) step by (simp add: calls)
  have keep: "\<forall>k v. pendingTimerInfoIDs ms2 k = Some v \<and> TaskID v \<noteq> emptyTimerID
            \<longrightarrow> pendingTimerInfoIDs ms' k = Some v"
    using keeps_run [OF wf2 eff(2) lens ro rest] by blast
  have "AddUserTimers [] (tb, ms) = Inr (tb, ms)" by simp
  then show ?case using step rest eff(1) keep by blast
next
  case (Cons p pre)
  then have calls: "calls = p # (pre @ c # post)" by simp
  from AddUserTimers_Cons [OF Cons.prems(5) [unfolded calls]] obtain r0 tbp msp where
    step: "AddUserTimer_call p (tb, ms) = (Inr r0, tbp, msp)"
    and rest: "AddUserTimers (pre @ c # post) (tbp, msp) = Inr (tb', ms')"
    by blast
  have ord: "set (callOrder p) = insert (callTimerID p) (dom (pendingTimerInfoIDs ms))"
    using Cons.prems(4) by (simp add: calls rangesOver_def)
  have len: "length (callOrder p) \<le> 2 ^ TimerQueueSeqNumBits"
    using Cons.prems(3) by (simp add: calls)
  have wf1: "keyedByTimerID msp"
    by (rule AddUserTimer_earliest(1) [OF Cons.prems(1) ord step [unfolded AddUserTimer_call_def]])
  have loc1: "usesLocalCounter tbp"
    by (rule AddUserTimer_effect(2) [OF Cons.prems(1) ord len Cons.prems(2) step])
  have lens: "\<forall>c\<in>set (pre @ c # post). length (callOrder c) \<le> 2 ^ TimerQueueSeqNumBits"
    using Cons.prems(3) by (simp add: calls)
  have ro: "rangeOrders (pre @ c # post) (tbp, msp)"
    using Cons.prems(4) step by (simp add: calls)
  from Cons.IH [OF wf1 loc1 lens ro rest refl] obtain tb1 ms1 r tb2 ms2 where
    a: "AddUserTimers pre (tbp, msp) = Inr (tb1, ms1)"
      "AddUserTimer_call c (tb1, ms1) = (Inr r, tb2, ms2)"
      "AddUserTimers post (tb2, ms2) = Inr (tb', ms')"
      "callEffect c ms1 r ms2"
      "\<forall>k v. pendingTimerInfoIDs ms2 k = Some v \<and> TaskID v \<noteq> emptyTimerID
            \<longrightarrow> pendingTimerInfoIDs ms' k = Some v"
    by blast
  have "AddUserTimers (p # pre) (tb, ms) = Inr (tb1, ms1)"
    using step a(1) by simp
  then show ?case using a(2,3,4,5) by blast
qed

lemma AddUserTimer_fields:
  fixes tb :: timerBuilder and ms :: mutableStateBuilder
  assumes ord: "set (callOrder c) = insert (callTimerID c) (dom (pendingTimerInfoIDs ms))"
    and ok: "AddUserTimer_call c (tb, ms) = (Inr r, tb', ms')"
  shows "\<forall>u\<in>ran (pendingTimerInfoIDs ms').
        expiryField u = callExpiryField c
        \<or> (\<exists>w\<in>ran (pendingTimerInfoIDs ms). expiryField w = expiryField u)"
proof -
  define new where "new = \<lparr>TimerID = callTimerID c,
      ExpiryTime = callNow c + callFireTimeout c * 1000000000,
      StartedID = callStartedID c, TaskID = emptyTimerID\<rparr>"
  define ms1 where "ms1 = UpdatePendingTimers (callTimerID c) new ms"
  note out = AddUserTimer_outcome [OF ord ok [unfolded AddUserTimer_call_def],
      folded new_def, folded ms1_def]
  have p1: "pendingTimerInfoIDs ms1 = (pendingTimerInfoIDs ms)(callTimerID c \<mapsto> new)"
    by (simp add: ms1_def UpdatePendingTimers_def)
  have ran1: "ran (pendingTimerInfoIDs ms1) = insert new (ran (pendingTimerInfoIDs ms))"
    using ran_map_upd [of "pendingTimerInfoIDs ms" "callTimerID c" new] out(1) by (simp add: p1)
  have newf: "expiryField new = callExpiryField c"
    by (simp add: new_def expiryField_def callExpiryField_def)
  have fields1: "\<forall>u\<in>ran (pendingTimerInfoIDs ms1).
        expiryField u = callExpiryField c
        \<or> (\<exists>w\<in>ran (pendingTimerInfoIDs ms). expiryField w = expiryField u)"
    using newf by (auto simp add: ran1)
  from out(2) show ?thesis
  proof (elim disjE conjE exE)
    assume "ms' = ms1"
    then show ?thesis using fields1 by simp
  next
    fix v ti X
    assume ti: "ti \<in> ran (pendingTimerInfoIDs ms1)"
      and ms': "ms' = UpdatePendingTimers (TimerID ti) (ti\<lparr>TaskID := X\<rparr>) ms1"
    have sub: "ran (pendingTimerInfoIDs ms') \<subseteq> insert (ti\<lparr>TaskID := X\<rparr>) (ran (pendingTimerInfoIDs ms1))"
      by (auto simp add: ms' UpdatePendingTimers_def ran_def split: if_splits)
    have same: "expiryField (ti\<lparr>TaskID := X\<rparr>) = expiryField ti"
      by (simp add: expiryField_def)
    show ?thesis
    proof
      fix u assume "u \<in> ran (pendingTimerInfoIDs ms')"
      then consider "u = ti\<lparr>TaskID := X\<rparr>" | "u \<in> ran (pendingTimerInfoIDs ms1)"
        using sub by auto
      then show "expiryField u = callExpiryField c
        \<or> (\<exists>w\<in>ran (pendingTimerInfoIDs ms). expiryField w = expiryField u)"
      proof cases
        case 1
        then show ?thesis using fields1 ti same by auto
      next
        case 2
        then show ?thesis using fields1 by blast
      qed
    qed
  qed
qed

lemma first_from_empty:
  fixes tb :: timerBuilder and ms :: mutableStateBuilder
  assumes ord: "set (callOrder c) = insert (callTimerID c) (dom (pendingTimerInfoIDs ms))"
    and ok: "AddUserTimer_call c (tb, ms) = (Inr r, tb', ms')"
    and empty: "pendingTimerInfoIDs ms = Map.empty"
  shows "\<exists>v0. hasOnlyTask ms' (callTimerID c) v0 \<and> expiryField v0 = callExpiryField c"
proof -
  define new where "new = \<lparr>TimerID = callTimerID c,
      ExpiryTime = callNow c + callFireTimeout c * 1000000000,
      StartedID = callStartedID c, TaskID = emptyTimerID\<rparr>"
  define ms1 where "ms1 = UpdatePendingTimers (callTimerID c) new ms"
  note out = AddUserTimer_outcome [OF ord ok [unfolded AddUserTimer_call_def],
      folded new_def, folded ms1_def]
  have p1: "pendingTimerInfoIDs ms1 = (pendingTimerInfoIDs ms)(callTimerID c \<mapsto> new)"
    by (simp add: ms1_def UpdatePendingTimers_def)
  have r1: "ran (pendingTimerInfoIDs ms1) = {new}" by (simp add: p1 empty)
  have newt: "TaskID new = emptyTimerID" and newid: "TimerID new = callTimerID c"
    by (simp_all add: new_def)
  have newf: "\<And>X. expiryField (new\<lparr>TaskID := X\<rparr>) = callExpiryField c"
    by (simp add: new_def expiryField_def callExpiryField_def)
  from out(2) show ?thesis
  proof (elim disjE conjE exE bexE)
    fix v assume "v \<in> ran (pendingTimerInfoIDs ms1)" "TaskID v \<noteq> emptyTimerID"
    then show ?thesis using r1 newt by auto
  next
    fix v ti X
    assume ti: "ti \<in> ran (pendingTimerInfoIDs ms1)" and X: "X \<noteq> emptyTimerID"
      and ms': "ms' = UpdatePendingTimers (TimerID ti) (ti\<lparr>TaskID := X\<rparr>) ms1"
    have "ti = new" using ti r1 by simp
    then have "pendingTimerInfoIDs ms' = [callTimerID c \<mapsto> new\<lparr>TaskID := X\<rparr>]"
      by (simp add: ms' UpdatePendingTimers_def p1 empty newid)
    then have "hasOnlyTask ms' (callTimerID c) (new\<lparr>TaskID := X\<rparr>)"
      using X by (simp add: hasOnlyTask_def)
    then show ?thesis using newf by blast
  qed
qed

lemma hasOnlyTask_step:
  fixes tb :: timerBuilder and ms :: mutableStateBuilder
  assumes ord: "set (callOrder c) = insert (callTimerID c) (dom (pendingTimerInfoIDs ms))"
    and ok: "AddUserTimer_call c (tb, ms) = (Inr r, tb', ms')"
    and h: "hasOnlyTask ms k0 v0"
    and above: "expiryField v0 <s callExpiryField c"
  shows "hasOnlyTask ms' k0 v0"
proof -
  define new where "new = \<lparr>TimerID = callTimerID c,
      ExpiryTime = callNow c + callFireTimeout c * 1000000000,
      StartedID = callStartedID c, TaskID = emptyTimerID\<rparr>"
  define ms1 where "ms1 = UpdatePendingTimers (callTimerID c) new ms"
  note out = AddUserTimer_outcome [OF ord ok [unfolded AddUserTimer_call_def],
      folded new_def, folded ms1_def]
  have p1: "pendingTimerInfoIDs ms1 = (pendingTimerInfoIDs ms)(callTimerID c \<mapsto> new)"
    by (simp add: ms1_def UpdatePendingTimers_def)
  have newt: "TaskID new = emptyTimerID"
    and newf: "expiryField new = callExpiryField c"
    by (simp_all add: new_def expiryField_def callExpiryField_def)
  from h have k0: "pendingTimerInfoIDs ms k0 = Some v0"
    and t0: "TaskID v0 \<noteq> emptyTimerID"
    and others: "\<forall>k v. pendingTimerInfoIDs ms k = Some v \<and> k \<noteq> k0 \<longrightarrow>
              TaskID v = emptyTimerID \<and> expiryField v0 <s expiryField v"
    unfolding hasOnlyTask_def by blast+
  have ne: "k0 \<noteq> callTimerID c" using k0 out(1) by auto
  have k01: "pendingTimerInfoIDs ms1 k0 = Some v0" using k0 ne by (simp add: p1)
  have others1: "\<forall>k v. pendingTimerInfoIDs ms1 k = Some v \<and> k \<noteq> k0 \<longrightarrow>
              TaskID v = emptyTimerID \<and> expiryField v0 <s expiryField v"
    using others above newt newf by (auto simp add: p1)
  have only1: "hasOnlyTask ms1 k0 v0"
    unfolding hasOnlyTask_def using k01 t0 others1 by blast
  from out(2) show ?thesis
  proof (elim disjE conjE exE)
    assume "ms' = ms1"
    then show ?thesis using only1 by simp
  next
    fix v ti X
    assume v: "v \<in> ran (pendingTimerInfoIDs ms1)" "TaskID v = emptyTimerID"
      and least: "\<forall>u\<in>ran (pendingTimerInfoIDs ms1). expiryField v \<le>s expiryField u"
    from v(1) obtain k where k: "pendingTimerInfoIDs ms1 k = Some v" by (auto simp add: ran_def)
    have "v0 \<in> ran (pendingTimerInfoIDs ms1)" using k01 by (auto simp add: ran_def)
    then have le: "expiryField v \<le>s expiryField v0" using least by blast
    have "k \<noteq> k0" using k k01 v(2) t0 by auto
    then have "expiryField v0 <s expiryField v" using others1 k by blast
    then show ?thesis using le by (simp add: sle_not_sless)
  qed
qed

lemma hasOnlyTask_run:
  "rangeOrders calls (tb, ms) \<Longrightarrow> AddUserTimers calls (tb, ms) = Inr (tb', ms') \<Longrightarrow>
   hasOnlyTask ms k0 v0 \<Longrightarrow> \<forall>c\<in>set calls. expiryField v0 <s callExpiryField c \<Longrightarrow>
   hasOnlyTask ms' k0 v0"
proof (induction calls arbitrary: tb ms)
  case Nil
  then show ?case by simp
next
  case (Cons c cs)
  from AddUserTimers_Cons [OF Cons.prems(2)] obtain r tb1 ms1 where
    step: "AddUserTimer_call c (tb, ms) = (Inr r, tb1, ms1)"
    and rest: "AddUserTimers cs (tb1, ms1) = Inr (tb', ms')"
    by blast
  have ord: "set (callOrder c) = insert (callTimerID c) (dom (pendingTimerInfoIDs ms))"
    using Cons.prems(1) by (simp add: rangesOver_def)
  have above: "expiryField v0 <s callExpiryField c" using Cons.prems(4) by simp
  have h1: "hasOnlyTask ms1 k0 v0"
    by (rule hasOnlyTask_step [OF ord step Cons.prems(3) above])
  have ro: "rangeOrders cs (tb1, ms1)" using Cons.prems(1) step by simp
  have ab: "\<forall>c\<in>set cs. expiryField v0 <s callExpiryField c" using Cons.prems(4) by simp
  from Cons.IH [OF ro rest h1 ab] show ?case .
qed

lemma first_least_run:
  assumes ne: "calls \<noteq> []" and ro: "rangeOrders calls (tb, ms)"
    and run: "AddUserTimers calls (tb, ms) = Inr (tb', ms')"
    and empty: "pendingTimerInfoIDs ms = Map.empty"
    and fl: "firstIsLeast calls"
  shows "\<exists>v0. hasOnlyTask ms' (callTimerID (hd calls)) v0"
proof -
  from ne obtain c cs where calls: "calls = c # cs" by (cases calls) auto
  from AddUserTimers_Cons [OF run [unfolded calls]] obtain r tb1 ms1 where
    step: "AddUserTimer_call c (tb, ms) = (Inr r, tb1, ms1)"
    and rest: "AddUserTimers cs (tb1, ms1) = Inr (tb', ms')"
    by blast
  have ord: "set (callOrder c) = insert (callTimerID c) (dom (pendingTimerInfoIDs ms))"
    using ro by (simp add: calls rangesOver_def)
  from first_from_empty [OF ord step empty] obtain v0 where
    v0: "hasOnlyTask ms1 (callTimerID c) v0" "expiryField v0 = callExpiryField c"
    by blast
  have ro1: "rangeOrders cs (tb1, ms1)" using ro step by (simp add: calls)
  have ab: "\<forall>d\<in>set cs. expiryField v0 <s callExpiryField d"
    using fl by (simp add: calls v0(2))
  from hasOnlyTask_run [OF ro1 rest v0(1) ab] show ?thesis
    by (auto simp add: calls)
qed

lemma persist_step:
  fixes tb :: timerBuilder and ms :: mutableStateBuilder
  assumes ord: "set (callOrder c) = insert (callTimerID c) (dom (pendingTimerInfoIDs ms))"
    and ok: "AddUserTimer_call c (tb, ms) = (Inr r, tb', ms')"
    and kv: "pendingTimerInfoIDs ms k = Some v" and t: "TaskID v \<noteq> emptyTimerID"
  shows "\<exists>v'. pendingTimerInfoIDs ms' k = Some v' \<and> TaskID v' \<noteq> emptyTimerID"
proof -
  define new where "new = \<lparr>TimerID = callTimerID c,
      ExpiryTime = callNow c + callFireTimeout c * 1000000000,
      StartedID = callStartedID c, TaskID = emptyTimerID\<rparr>"
  define ms1 where "ms1 = UpdatePendingTimers (callTimerID c) new ms"
  note out = AddUserTimer_outcome [OF ord ok [unfolded AddUserTimer_call_def],
      folded new_def, folded ms1_def]
  have p1: "pendingTimerInfoIDs ms1 = (pendingTimerInfoIDs ms)(callTimerID c \<mapsto> new)"
    by (simp add: ms1_def UpdatePendingTimers_def)
  have ne: "k \<noteq> callTimerID c" using kv out(1) by auto
  have k1: "pendingTimerInfoIDs ms1 k = Some v" using kv ne by (simp add: p1)
  from out(2) show ?thesis
  proof (elim disjE conjE exE)
    assume "ms' = ms1"
    then show ?thesis using k1 t by simp
  next
    fix w ti X
    assume X: "X \<noteq> emptyTimerID"
      and ms': "ms' = UpdatePendingTimers (TimerID ti) (ti\<lparr>TaskID := X\<rparr>) ms1"
    show ?thesis
      using k1 t X by (cases "k = TimerID ti") (simp_all add: ms' UpdatePendingTimers_def)
  qed
qed

lemma twoHaveTasks_step:
  fixes tb :: timerBuilder and ms :: mutableStateBuilder
  assumes ord: "set (callOrder c) = insert (callTimerID c) (dom (pendingTimerInfoIDs ms))"
    and ok: "AddUserTimer_call c (tb, ms) = (Inr r, tb', ms')"
    and two: "twoHaveTasks ms"
  shows "twoHaveTasks ms'"
proof -
  from two obtain k k' v v' where a: "k \<noteq> k'" "pendingTimerInfoIDs ms k = Some v"
    "pendingTimerInfoIDs ms k' = Some v'" "TaskID v \<noteq> emptyTimerID" "TaskID v' \<noteq> emptyTimerID"
    unfolding twoHaveTasks_def by blast
  from persist_step [OF ord ok a(2) a(4)] obtain w where
    w: "pendingTimerInfoIDs ms' k = Some w" "TaskID w \<noteq> emptyTimerID" by blast
  from persist_step [OF ord ok a(3) a(5)] obtain w' where
    w': "pendingTimerInfoIDs ms' k' = Some w'" "TaskID w' \<noteq> emptyTimerID" by blast
  show ?thesis unfolding twoHaveTasks_def using a(1) w w' by blast
qed

lemma twoHaveTasks_run:
  "rangeOrders calls (tb, ms) \<Longrightarrow> AddUserTimers calls (tb, ms) = Inr (tb', ms') \<Longrightarrow>
   twoHaveTasks ms \<Longrightarrow> twoHaveTasks ms'"
proof (induction calls arbitrary: tb ms)
  case Nil
  then show ?case by simp
next
  case (Cons c cs)
  from AddUserTimers_Cons [OF Cons.prems(2)] obtain r tb1 ms1 where
    step: "AddUserTimer_call c (tb, ms) = (Inr r, tb1, ms1)"
    and rest: "AddUserTimers cs (tb1, ms1) = Inr (tb', ms')"
    by blast
  have ord: "set (callOrder c) = insert (callTimerID c) (dom (pendingTimerInfoIDs ms))"
    using Cons.prems(1) by (simp add: rangesOver_def)
  have t1: "twoHaveTasks ms1" by (rule twoHaveTasks_step [OF ord step Cons.prems(3)])
  have ro: "rangeOrders cs (tb1, ms1)" using Cons.prems(1) step by simp
  from Cons.IH [OF ro rest t1] show ?case .
qed

lemma below_step:
  fixes tb :: timerBuilder and ms :: mutableStateBuilder
  assumes ord: "set (callOrder c) = insert (callTimerID c) (dom (pendingTimerInfoIDs ms))"
    and ok: "AddUserTimer_call c (tb, ms) = (Inr r, tb', ms')"
    and kv: "pendingTimerInfoIDs ms k0 = Some v0" and t: "TaskID v0 \<noteq> emptyTimerID"
    and low: "\<forall>u\<in>ran (pendingTimerInfoIDs ms). callExpiryField c <s expiryField u"
  shows "twoHaveTasks ms'"
proof -
  define new where "new = \<lparr>TimerID = callTimerID c,
      ExpiryTime = callNow c + callFireTimeout c * 1000000000,
      StartedID = callStartedID c, TaskID = emptyTimerID\<rparr>"
  define ms1 where "ms1 = UpdatePendingTimers (callTimerID c) new ms"
  note out = AddUserTimer_outcome [OF ord ok [unfolded AddUserTimer_call_def],
      folded new_def, folded ms1_def]
  have p1: "pendingTimerInfoIDs ms1 = (pendingTimerInfoIDs ms)(callTimerID c \<mapsto> new)"
    by (simp add: ms1_def UpdatePendingTimers_def)
  have ran1: "ran (pendingTimerInfoIDs ms1) = insert new (ran (pendingTimerInfoIDs ms))"
    using ran_map_upd [of "pendingTimerInfoIDs ms" "callTimerID c" new] out(1) by (simp add: p1)
  have newt: "TaskID new = emptyTimerID" and newid: "TimerID new = callTimerID c"
    and newf: "expiryField new = callExpiryField c"
    by (simp_all add: new_def expiryField_def callExpiryField_def)
  have newin: "new \<in> ran (pendingTimerInfoIDs ms1)" by (simp add: ran1)
  have ne: "k0 \<noteq> callTimerID c" using kv out(1) by auto
  have k1: "pendingTimerInfoIDs ms1 k0 = Some v0" using kv ne by (simp add: p1)
  have uniq: "\<And>u. u \<in> ran (pendingTimerInfoIDs ms1) \<Longrightarrow> expiryField u \<le>s expiryField new \<Longrightarrow> u = new"
  proof -
    fix u assume u: "u \<in> ran (pendingTimerInfoIDs ms1)" and le: "expiryField u \<le>s expiryField new"
    show "u = new"
    proof (rule ccontr)
      assume "u \<noteq> new"
      then have "u \<in> ran (pendingTimerInfoIDs ms)" using u by (simp add: ran1)
      then have "callExpiryField c <s expiryField u" using low by blast
      then show False using le by (simp add: newf sle_not_sless)
    qed
  qed
  from out(2) show ?thesis
  proof (elim disjE conjE exE bexE)
    fix v assume v: "v \<in> ran (pendingTimerInfoIDs ms1)" "TaskID v \<noteq> emptyTimerID"
      and least: "\<forall>u\<in>ran (pendingTimerInfoIDs ms1). expiryField v \<le>s expiryField u"
    from least newin have "expiryField v \<le>s expiryField new" by blast
    from uniq [OF v(1) this] show ?thesis using v(2) newt by simp
  next
    fix v ti X
    assume v: "v \<in> ran (pendingTimerInfoIDs ms1)"
      and least: "\<forall>u\<in>ran (pendingTimerInfoIDs ms1). expiryField v \<le>s expiryField u"
      and ti: "ti \<in> ran (pendingTimerInfoIDs ms1)" "expiryField ti = expiryField v"
      and X: "X \<noteq> emptyTimerID"
      and ms': "ms' = UpdatePendingTimers (TimerID ti) (ti\<lparr>TaskID := X\<rparr>) ms1"
    from least newin have le: "expiryField v \<le>s expiryField new" by blast
    then have "expiryField ti \<le>s expiryField new" by (simp add: ti(2))
    from uniq [OF ti(1) this] have tin: "ti = new" .
    have a: "pendingTimerInfoIDs ms' (callTimerID c) = Some (new\<lparr>TaskID := X\<rparr>)"
      by (simp add: ms' tin newid UpdatePendingTimers_def)
    have b: "pendingTimerInfoIDs ms' k0 = Some v0"
      using k1 ne by (simp add: ms' tin newid UpdatePendingTimers_def)
    have "TaskID (new\<lparr>TaskID := X\<rparr>) \<noteq> emptyTimerID" using X by simp
    then show ?thesis unfolding twoHaveTasks_def using a b ne t by blast
  qed
qed

lemma below_run:
  "rangeOrders calls (tb, ms) \<Longrightarrow> AddUserTimers calls (tb, ms) = Inr (tb', ms') \<Longrightarrow>
   pendingTimerInfoIDs ms k0 = Some v0 \<Longrightarrow> TaskID v0 \<noteq> emptyTimerID \<Longrightarrow>
   \<forall>u\<in>ran (pendingTimerInfoIDs ms). F \<le>s expiryField u \<Longrightarrow>
   \<exists>d\<in>set calls. callExpiryField d <s F \<Longrightarrow>
   twoHaveTasks ms'"
proof (induction calls arbitrary: tb ms v0)
  case Nil
  then show ?case by simp
next
  case (Cons c cs)
  from AddUserTimers_Cons [OF Cons.prems(2)] obtain r tb1 ms1 where
    step: "AddUserTimer_call c (tb, ms) = (Inr r, tb1, ms1)"
    and rest: "AddUserTimers cs (tb1, ms1) = Inr (tb', ms')"
    by blast
  have ord: "set (callOrder c) = insert (callTimerID c) (dom (pendingTimerInfoIDs ms))"
    using Cons.prems(1) by (simp add: rangesOver_def)
  have ro: "rangeOrders cs (tb1, ms1)" using Cons.prems(1) step by simp
  show ?case
  proof (cases "callExpiryField c <s F")
    case True
    have low: "\<forall>u\<in>ran (pendingTimerInfoIDs ms). callExpiryField c <s expiryField u"
    proof
      fix u assume "u \<in> ran (pendingTimerInfoIDs ms)"
      then have "F \<le>s expiryField u" using Cons.prems(5) by blast
      then show "callExpiryField c <s expiryField u"
        using True by (simp add: word_sless_alt word_sle_eq)
    qed
    have "twoHaveTasks ms1"
      by (rule below_step [OF ord step Cons.prems(3) Cons.prems(4) low])
    from twoHaveTasks_run [OF ro rest this] show ?thesis .
  next
    case False
    then have cF: "F \<le>s callExpiryField c" by (simp add: sle_not_sless)
    from persist_step [OF ord step Cons.prems(3) Cons.prems(4)] obtain v1 where
      v1: "pendingTimerInfoIDs ms1 k0 = Some v1" "TaskID v1 \<noteq> emptyTimerID" by blast
    have f1: "\<forall>u\<in>ran (pendingTimerInfoIDs ms1). F \<le>s expiryField u"
    proof
      fix u assume "u \<in> ran (pendingTimerInfoIDs ms1)"
      with AddUserTimer_fields [OF ord step] consider "expiryField u = callExpiryField c"
        | w where "w \<in> ran (pendingTimerInfoIDs ms)" "expiryField w = expiryField u"
        by blast
      then show "F \<le>s expiryField u"
      proof cases
        case 1
        then show ?thesis using cF by simp
      next
        case 2
        then show ?thesis using Cons.prems(5) by fastforce
      qed
    qed
    have ex: "\<exists>d\<in>set cs. callExpiryField d <s F"
      using Cons.prems(6) False by auto
    from Cons.IH [OF ro rest v1 f1 ex] show ?thesis .
  qed
qed

lemma later_below_run:
  assumes ro: "rangeOrders calls (tb, ms)"
    and run: "AddUserTimers calls (tb, ms) = Inr (tb', ms')"
    and empty: "pendingTimerInfoIDs ms = Map.empty"
    and lb: "laterIsBelow calls"
  shows "twoHaveTasks ms'"
proof -
  from lb obtain c cs where calls: "calls = c # cs" by (cases calls) auto
  from AddUserTimers_Cons [OF run [unfolded calls]] obtain r tb1 ms1 where
    step: "AddUserTimer_call c (tb, ms) = (Inr r, tb1, ms1)"
    and rest: "AddUserTimers cs (tb1, ms1) = Inr (tb', ms')"
    by blast
  have ord: "set (callOrder c) = insert (callTimerID c) (dom (pendingTimerInfoIDs ms))"
    using ro by (simp add: calls rangesOver_def)
  from first_from_empty [OF ord step empty] obtain v0 where
    v0: "hasOnlyTask ms1 (callTimerID c) v0" "expiryField v0 = callExpiryField c"
    by blast
  have kv: "pendingTimerInfoIDs ms1 (callTimerID c) = Some v0" and t: "TaskID v0 \<noteq> emptyTimerID"
    using v0(1) by (simp_all add: hasOnlyTask_def)
  have f: "\<forall>u\<in>ran (pendingTimerInfoIDs ms1). callExpiryField c \<le>s expiryField u"
  proof
    fix u assume "u \<in> ran (pendingTimerInfoIDs ms1)"
    then obtain k where k: "pendingTimerInfoIDs ms1 k = Some u" by (auto simp add: ran_def)
    show "callExpiryField c \<le>s expiryField u"
    proof (cases "k = callTimerID c")
      case True
      then show ?thesis using k kv v0(2) by (simp add: sle_refl)
    next
      case False
      with v0(1) k have "expiryField v0 <s expiryField u" unfolding hasOnlyTask_def by blast
      then show ?thesis by (simp add: v0(2) word_sless_alt word_sle_eq)
    qed
  qed
  have ro1: "rangeOrders cs (tb1, ms1)" using ro step by (simp add: calls)
  have ex: "\<exists>d\<in>set cs. callExpiryField d <s callExpiryField c"
    using lb by (simp add: calls)
  from below_run [OF ro1 rest kv t f ex] show ?thesis .
qed

text \<open>
  C1, as amended. Take a mutable state that stores every TimerInfo under its own timer
  ID, and a sequence of one or more calls of \<open>AddUserTimer\<close> on it and on one
  builder, all successful, each ranging over all pending timers.

  First, after the sequence, and so after every call of it, some pending TimerInfo has
  a persisted task (its \<open>TaskID\<close> is not the empty sentinel) and the time stamp field
  of its expiry is the least among all pending timers.

  Second, let the builder number its index from a local counter, as every builder made
  by \<open>newTimerBuilder\<close> does, and let no call range over more than \<open>2 ^ 26\<close>
  timers, so that no two keys of one load have the same 26-bit sequence field. Then
  every call of the sequence has the effect
  \<open>callEffect\<close>: it stores the new TimerInfo with the empty sentinel; it returns a
  task only when a pending timer with the least time stamp field had the empty
  sentinel, and then it writes the ID of that task to that timer and changes nothing
  else; it returns no task when a pending timer with the least time stamp field has
  its task already, and then it changes nothing else. Every timer that has a task
  after a call has the very same entry, and so the same \<open>TaskID\<close>, at the end of
  the sequence. So timers that were the earliest at an earlier point keep their task,
  and more than one TimerInfo can have one.

  Third, if the mutable state starts with no pending timer and the time stamp field of
  the first call is strictly below that of every later call, then at the end exactly
  one pending TimerInfo has a persisted task, it is the timer of the first call, and
  its time stamp field is strictly below that of every other pending timer.

  Fourth, a pending timer that is the only one with a persisted task and whose time
  stamp field is strictly below that of every other pending timer stays so, with its
  entry unchanged, through calls whose time stamp fields are all strictly above its
  own.

  Fifth, if the mutable state starts with no pending timer and some later call has a
  time stamp field strictly below that of the first call, then at the end two
  different pending TimerInfos have a persisted task.
\<close>

theorem earliest_timer_materialized:
  assumes "keyedByTimerID ms" and "calls \<noteq> []" and "rangeOrders calls (tb, ms)"
    and "AddUserTimers calls (tb, ms) = Inr (tb', ms')"
  shows "(\<exists>ti\<in>ran (pendingTimerInfoIDs ms'). TaskID ti \<noteq> emptyTimerID
          \<and> (\<forall>ti'\<in>ran (pendingTimerInfoIDs ms'). expiryField ti \<le>s expiryField ti'))
    \<and> (usesLocalCounter tb
          \<and> (\<forall>c\<in>set calls. length (callOrder c) \<le> 2 ^ TimerQueueSeqNumBits)
        \<longrightarrow> (\<forall>pre c post. calls = pre @ c # post \<longrightarrow>
               (\<exists>tb1 ms1 r tb2 ms2.
                   AddUserTimers pre (tb, ms) = Inr (tb1, ms1)
                 \<and> AddUserTimer_call c (tb1, ms1) = (Inr r, tb2, ms2)
                 \<and> AddUserTimers post (tb2, ms2) = Inr (tb', ms')
                 \<and> callEffect c ms1 r ms2
                 \<and> (\<forall>k v. pendingTimerInfoIDs ms2 k = Some v \<and> TaskID v \<noteq> emptyTimerID
                       \<longrightarrow> pendingTimerInfoIDs ms' k = Some v))))
    \<and> (pendingTimerInfoIDs ms = Map.empty \<and> firstIsLeast calls
        \<longrightarrow> onlyEarliestHasTask ms' \<and> (\<exists>v0. hasOnlyTask ms' (callTimerID (hd calls)) v0))
    \<and> (\<forall>k0 v0. hasOnlyTask ms k0 v0 \<and> (\<forall>c\<in>set calls. expiryField v0 <s callExpiryField c)
        \<longrightarrow> hasOnlyTask ms' k0 v0)
    \<and> (pendingTimerInfoIDs ms = Map.empty \<and> laterIsBelow calls \<longrightarrow> twoHaveTasks ms')"
proof (intro conjI impI allI)
  show "\<exists>ti\<in>ran (pendingTimerInfoIDs ms'). TaskID ti \<noteq> emptyTimerID
          \<and> (\<forall>ti'\<in>ran (pendingTimerInfoIDs ms'). expiryField ti \<le>s expiryField ti')"
    by (rule run_earliest [OF assms])
next
  fix pre c post
  assume a: "usesLocalCounter tb
      \<and> (\<forall>c\<in>set calls. length (callOrder c) \<le> 2 ^ TimerQueueSeqNumBits)"
    and c: "calls = pre @ c # post"
  from a have loc: "usesLocalCounter tb"
    and lens: "\<forall>c\<in>set calls. length (callOrder c) \<le> 2 ^ TimerQueueSeqNumBits"
    by simp_all
  show "\<exists>tb1 ms1 r tb2 ms2.
                   AddUserTimers pre (tb, ms) = Inr (tb1, ms1)
                 \<and> AddUserTimer_call c (tb1, ms1) = (Inr r, tb2, ms2)
                 \<and> AddUserTimers post (tb2, ms2) = Inr (tb', ms')
                 \<and> callEffect c ms1 r ms2
                 \<and> (\<forall>k v. pendingTimerInfoIDs ms2 k = Some v \<and> TaskID v \<noteq> emptyTimerID
                       \<longrightarrow> pendingTimerInfoIDs ms' k = Some v)"
    by (rule run_effects [OF assms(1) loc lens assms(3) assms(4) c])
next
  assume a: "pendingTimerInfoIDs ms = Map.empty \<and> firstIsLeast calls"
  then have em: "pendingTimerInfoIDs ms = Map.empty" and fl: "firstIsLeast calls" by simp_all
  show h: "\<exists>v0. hasOnlyTask ms' (callTimerID (hd calls)) v0"
    by (rule first_least_run [OF assms(2) assms(3) assms(4) em fl])
  then show "onlyEarliestHasTask ms'"
    unfolding onlyEarliestHasTask_def by blast
next
  fix k0 v0
  assume a: "hasOnlyTask ms k0 v0 \<and> (\<forall>c\<in>set calls. expiryField v0 <s callExpiryField c)"
  then have h: "hasOnlyTask ms k0 v0"
    and ab: "\<forall>c\<in>set calls. expiryField v0 <s callExpiryField c" by simp_all
  show "hasOnlyTask ms' k0 v0"
    by (rule hasOnlyTask_run [OF assms(3) assms(4) h ab])
next
  assume a: "pendingTimerInfoIDs ms = Map.empty \<and> laterIsBelow calls"
  then have em: "pendingTimerInfoIDs ms = Map.empty" and lb: "laterIsBelow calls" by simp_all
  show "twoHaveTasks ms'"
    by (rule later_below_run [OF assms(3) assms(4) em lb])
qed

text \<open>
  Three runs from a new builder. Timer \<open>c\<close> (one second) and then timer \<open>d\<close> (two
  seconds) on the empty mutable state: the first call returns the task 939524097 for
  \<open>c\<close>, the second returns no task, \<open>c\<close> keeps its entry and \<open>d\<close> keeps the
  empty sentinel. Timer \<open>d\<close> on a mutable state in which \<open>c\<close> has its task: \<open>c\<close>
  stays the only timer with a task. Timer \<open>a\<close> (two seconds) and then timer \<open>b\<close>
  (one second) on the empty mutable state: both have a task.
\<close>

theorem earliest_timer_materialized_witness:
  "keyedByTimerID ms_empty \<and> usesLocalCounter tb_new
   \<and> pendingTimerInfoIDs ms_empty = Map.empty
   \<and> rangeOrders [call_c, call_d] (tb_new, ms_empty)
   \<and> firstIsLeast [call_c, call_d]
   \<and> length (callOrder call_c) \<le> 2 ^ TimerQueueSeqNumBits
   \<and> length (callOrder call_d) \<le> 2 ^ TimerQueueSeqNumBits
   \<and> \<not> isl (AddUserTimers [call_c, call_d] (tb_new, ms_empty))
   \<and> (\<exists>ti\<in>ran (pendingTimerInfoIDs
           (snd (projr (AddUserTimers [call_c, call_d] (tb_new, ms_empty))))).
         TaskID ti \<noteq> emptyTimerID
         \<and> (\<forall>ti'\<in>ran (pendingTimerInfoIDs
               (snd (projr (AddUserTimers [call_c, call_d] (tb_new, ms_empty))))).
              expiryField ti \<le>s expiryField ti'))
   \<and> fst (AddUserTimer_call call_c (tb_new, ms_empty)) = Inr (Some (UserTimerTask 939524097 12))
   \<and> callEffect call_c ms_empty (Some (UserTimerTask 939524097 12))
        (snd (projr (AddUserTimers [call_c] (tb_new, ms_empty))))
   \<and> fst (AddUserTimer_call call_d (projr (AddUserTimers [call_c] (tb_new, ms_empty)))) = Inr None
   \<and> callEffect call_d (snd (projr (AddUserTimers [call_c] (tb_new, ms_empty)))) None
        (snd (projr (AddUserTimers [call_c, call_d] (tb_new, ms_empty))))
   \<and> pendingTimerInfoIDs (snd (projr (AddUserTimers [call_c, call_d] (tb_new, ms_empty)))) ''c''
       = pendingTimerInfoIDs (snd (projr (AddUserTimers [call_c] (tb_new, ms_empty)))) ''c''
   \<and> onlyEarliestHasTask (snd (projr (AddUserTimers [call_c, call_d] (tb_new, ms_empty))))
   \<and> (\<exists>v0. hasOnlyTask (snd (projr (AddUserTimers [call_c, call_d] (tb_new, ms_empty)))) ''c'' v0)
   \<and> map_option TaskID (pendingTimerInfoIDs
        (snd (projr (AddUserTimers [call_c, call_d] (tb_new, ms_empty)))) ''c'') = Some 939524097
   \<and> map_option TaskID (pendingTimerInfoIDs
        (snd (projr (AddUserTimers [call_c, call_d] (tb_new, ms_empty)))) ''d'') = Some emptyTimerID
   \<and> keyedByTimerID ms_c \<and> rangeOrders [call_d] (tb_new, ms_c)
   \<and> hasOnlyTask ms_c ''c'' info_c
   \<and> expiryField info_c <s callExpiryField call_d
   \<and> \<not> isl (AddUserTimers [call_d] (tb_new, ms_c))
   \<and> hasOnlyTask (snd (projr (AddUserTimers [call_d] (tb_new, ms_c)))) ''c'' info_c
   \<and> rangeOrders [call_a, call_b] (tb_new, ms_empty)
   \<and> laterIsBelow [call_a, call_b]
   \<and> \<not> isl (AddUserTimers [call_a, call_b] (tb_new, ms_empty))
   \<and> twoHaveTasks (snd (projr (AddUserTimers [call_a, call_b] (tb_new, ms_empty))))"
proof -
  let ?st0 = "(tb_new, ms_empty)"
  have wf: "keyedByTimerID ms_empty"
    by (simp add: keyedByTimerID_def ms_empty_def)
  have loc: "usesLocalCounter tb_new"
    by (simp add: usesLocalCounter_def tb_new_def newTimerBuilder_def)
  have em: "pendingTimerInfoIDs ms_empty = Map.empty"
    by (simp add: ms_empty_def)
  have fl: "firstIsLeast [call_c, call_d]"
    by (simp add: callExpiryField_def call_c_def call_d_def tsmask_val word_sless_alt)
  have lc: "length (callOrder call_c) \<le> 2 ^ TimerQueueSeqNumBits"
    and ld: "length (callOrder call_d) \<le> 2 ^ TimerQueueSeqNumBits"
    by (simp_all add: call_c_def call_d_def TimerQueueSeqNumBits_def)
  have lens: "\<forall>c\<in>set [call_c, call_d]. length (callOrder c) \<le> 2 ^ TimerQueueSeqNumBits"
    using lc ld by simp

  have v1: "fst (AddUserTimer_call call_c ?st0) = Inr (Some (UserTimerTask 939524097 12))"
    by code_simp
  then obtain tb1 ms1 where
    e1: "AddUserTimer_call call_c ?st0 = (Inr (Some (UserTimerTask 939524097 12)), tb1, ms1)"
    by (cases "AddUserTimer_call call_c ?st0" rule: prod_cases3) auto
  have o1: "set (callOrder call_c) = insert (callTimerID call_c) (dom (pendingTimerInfoIDs ms_empty))"
    by (simp add: call_c_def ms_empty_def)
  note s1 = AddUserTimer_earliest [OF wf o1 e1 [unfolded AddUserTimer_call_def]]
  have run1: "AddUserTimers [call_c] ?st0 = Inr (tb1, ms1)"
    using e1 by simp
  have p1: "projr (AddUserTimers [call_c] ?st0) = (tb1, ms1)"
    by (simp only: run1 sum.sel)
  have "fst (AddUserTimer_call call_d (snd (AddUserTimer_call call_c ?st0))) = Inr None"
    by code_simp
  then have v2: "fst (AddUserTimer_call call_d (tb1, ms1)) = Inr None"
    by (simp add: e1)
  then obtain tb2 ms2 where e2: "AddUserTimer_call call_d (tb1, ms1) = (Inr None, tb2, ms2)"
    by (cases "AddUserTimer_call call_d (tb1, ms1)" rule: prod_cases3) auto
  have ro: "rangeOrders [call_c, call_d] ?st0"
    using e1 e2 s1(3) by (simp add: rangesOver_def call_c_def call_d_def ms_empty_def insert_commute)
  have run: "AddUserTimers [call_c, call_d] ?st0 = Inr (tb2, ms2)"
    using e1 e2 by simp
  have p2: "projr (AddUserTimers [call_c, call_d] ?st0) = (tb2, ms2)"
    by (simp only: run sum.sel)
  have ni: "\<not> isl (AddUserTimers [call_c, call_d] ?st0)"
    by (simp only: run sum.disc simp_thms)
  have ne: "[call_c, call_d] \<noteq> []" by simp
  note T = earliest_timer_materialized [OF wf ne ro run]
  have A: "\<exists>ti\<in>ran (pendingTimerInfoIDs ms2). TaskID ti \<noteq> emptyTimerID
         \<and> (\<forall>ti'\<in>ran (pendingTimerInfoIDs ms2). expiryField ti \<le>s expiryField ti')"
    by (rule T [THEN conjunct1])
  note Fr = T [THEN conjunct2, THEN conjunct1, rule_format, OF conjI [OF loc lens]]
  have "[call_c, call_d] = [] @ call_c # [call_d]" by simp
  from Fr [OF this] e1 have Fc: "callEffect call_c ms_empty (Some (UserTimerTask 939524097 12)) ms1"
    and keep: "\<forall>k v. pendingTimerInfoIDs ms1 k = Some v \<and> TaskID v \<noteq> emptyTimerID
                       \<longrightarrow> pendingTimerInfoIDs ms2 k = Some v"
    by auto
  have "map_option TaskID (pendingTimerInfoIDs
        (snd (projr (AddUserTimers [call_c] (tb_new, ms_empty)))) ''c'') = Some 939524097"
    by code_simp
  then obtain vc where vc: "pendingTimerInfoIDs ms1 ''c'' = Some vc" "TaskID vc = 939524097"
    by (auto simp only: p1 snd_conv)
  have "TaskID vc \<noteq> emptyTimerID" by (simp add: vc(2) emptyTimerID_def)
  with keep vc(1) have kept: "pendingTimerInfoIDs ms2 ''c'' = pendingTimerInfoIDs ms1 ''c''"
    by simp
  have "[call_c, call_d] = [call_c] @ call_d # []" by simp
  from Fr [OF this] run1 e2 have Fd: "callEffect call_d ms1 None ms2"
    by auto
  note B1 = T [THEN conjunct2, THEN conjunct2, THEN conjunct1, rule_format, OF conjI [OF em fl]]
  have B1a: "onlyEarliestHasTask ms2" by (rule B1 [THEN conjunct1])
  have B1b: "\<exists>v0. hasOnlyTask ms2 ''c'' v0"
    using B1 [THEN conjunct2] by (simp add: call_c_def)
  have ids: "map_option TaskID (pendingTimerInfoIDs
        (snd (projr (AddUserTimers [call_c, call_d] (tb_new, ms_empty)))) ''c'') = Some 939524097
   \<and> map_option TaskID (pendingTimerInfoIDs
        (snd (projr (AddUserTimers [call_c, call_d] (tb_new, ms_empty)))) ''d'') = Some emptyTimerID"
    by code_simp

  have wfc: "keyedByTimerID ms_c"
    by (simp add: keyedByTimerID_def ms_c_def info_c_def)
  have hc: "hasOnlyTask ms_c ''c'' info_c"
    by (simp add: hasOnlyTask_def ms_c_def info_c_def emptyTimerID_def)
  have ab: "expiryField info_c <s callExpiryField call_d"
    by (simp add: expiryField_def callExpiryField_def info_c_def call_d_def tsmask_val word_sless_alt)
  have abs: "\<forall>c\<in>set [call_d]. expiryField info_c <s callExpiryField c"
    using ab by simp
  have "\<not> isl (fst (AddUserTimer_call call_d (tb_new, ms_c)))"
    by code_simp
  then obtain r3 tb3 ms3 where e3: "AddUserTimer_call call_d (tb_new, ms_c) = (Inr r3, tb3, ms3)"
    by (cases "AddUserTimer_call call_d (tb_new, ms_c)" rule: prod_cases3;
        cases "fst (AddUserTimer_call call_d (tb_new, ms_c))") auto
  have ro3: "rangeOrders [call_d] (tb_new, ms_c)"
    using e3 by (simp add: rangesOver_def call_d_def ms_c_def insert_commute)
  have run3: "AddUserTimers [call_d] (tb_new, ms_c) = Inr (tb3, ms3)"
    using e3 by simp
  have ne3: "[call_d] \<noteq> []" by simp
  note T3 = earliest_timer_materialized [OF wfc ne3 ro3 run3]
  note B2 = T3 [THEN conjunct2, THEN conjunct2, THEN conjunct2, THEN conjunct1, rule_format,
      OF conjI [OF hc abs]]

  have lb: "laterIsBelow [call_a, call_b]"
    by (simp add: callExpiryField_def call_a_def call_b_def tsmask_val word_sless_alt)
  have "\<not> isl (fst (AddUserTimer_call call_a ?st0))"
    by code_simp
  then obtain r4 tb4 ms4 where e4: "AddUserTimer_call call_a ?st0 = (Inr r4, tb4, ms4)"
    by (cases "AddUserTimer_call call_a ?st0" rule: prod_cases3;
        cases "fst (AddUserTimer_call call_a ?st0)") auto
  have o4: "set (callOrder call_a) = insert (callTimerID call_a) (dom (pendingTimerInfoIDs ms_empty))"
    by (simp add: call_a_def ms_empty_def)
  note s4 = AddUserTimer_earliest [OF wf o4 e4 [unfolded AddUserTimer_call_def]]
  have "\<not> isl (fst (AddUserTimer_call call_b (snd (AddUserTimer_call call_a ?st0))))"
    by code_simp
  then have "\<not> isl (fst (AddUserTimer_call call_b (tb4, ms4)))"
    by (simp add: e4)
  then obtain r5 tb5 ms5 where e5: "AddUserTimer_call call_b (tb4, ms4) = (Inr r5, tb5, ms5)"
    by (cases "AddUserTimer_call call_b (tb4, ms4)" rule: prod_cases3;
        cases "fst (AddUserTimer_call call_b (tb4, ms4))") auto
  have ro5: "rangeOrders [call_a, call_b] ?st0"
    using e4 e5 s4(3) by (simp add: rangesOver_def call_a_def call_b_def ms_empty_def insert_commute)
  have run5: "AddUserTimers [call_a, call_b] ?st0 = Inr (tb5, ms5)"
    using e4 e5 by simp
  have ne5: "[call_a, call_b] \<noteq> []" by simp
  note T5 = earliest_timer_materialized [OF wf ne5 ro5 run5]
  note B3 = T5 [THEN conjunct2, THEN conjunct2, THEN conjunct2, THEN conjunct2, rule_format,
      OF conjI [OF em lb]]

  have c9: "\<exists>ti\<in>ran (pendingTimerInfoIDs
           (snd (projr (AddUserTimers [call_c, call_d] (tb_new, ms_empty))))).
         TaskID ti \<noteq> emptyTimerID
         \<and> (\<forall>ti'\<in>ran (pendingTimerInfoIDs
               (snd (projr (AddUserTimers [call_c, call_d] (tb_new, ms_empty))))).
              expiryField ti \<le>s expiryField ti')"
    using A by (simp only: p2 snd_conv)
  have c11: "callEffect call_c ms_empty (Some (UserTimerTask 939524097 12))
        (snd (projr (AddUserTimers [call_c] (tb_new, ms_empty))))"
    using Fc by (simp only: p1 snd_conv)
  have c12: "fst (AddUserTimer_call call_d (projr (AddUserTimers [call_c] (tb_new, ms_empty)))) = Inr None"
    using v2 by (simp only: p1)
  have c13: "callEffect call_d (snd (projr (AddUserTimers [call_c] (tb_new, ms_empty)))) None
        (snd (projr (AddUserTimers [call_c, call_d] (tb_new, ms_empty))))"
    using Fd by (simp only: p1 p2 snd_conv)
  have c13b: "pendingTimerInfoIDs (snd (projr (AddUserTimers [call_c, call_d] (tb_new, ms_empty)))) ''c''
       = pendingTimerInfoIDs (snd (projr (AddUserTimers [call_c] (tb_new, ms_empty)))) ''c''"
    using kept by (simp only: p1 p2 snd_conv)
  have c14: "onlyEarliestHasTask (snd (projr (AddUserTimers [call_c, call_d] (tb_new, ms_empty))))"
    using B1a by (simp only: p2 snd_conv)
  have c15: "\<exists>v0. hasOnlyTask (snd (projr (AddUserTimers [call_c, call_d] (tb_new, ms_empty)))) ''c'' v0"
    using B1b by (simp only: p2 snd_conv)
  have c20: "\<not> isl (AddUserTimers [call_d] (tb_new, ms_c))"
    by (simp only: run3 sum.disc simp_thms)
  have c21: "hasOnlyTask (snd (projr (AddUserTimers [call_d] (tb_new, ms_c)))) ''c'' info_c"
    using B2 by (simp only: run3 sum.sel snd_conv)
  have c24: "\<not> isl (AddUserTimers [call_a, call_b] (tb_new, ms_empty))"
    by (simp only: run5 sum.disc simp_thms)
  have c25: "twoHaveTasks (snd (projr (AddUserTimers [call_a, call_b] (tb_new, ms_empty))))"
    using B3 by (simp only: run5 sum.sel snd_conv)
  show ?thesis
    by (intro conjI wf loc em ro fl lc ld ni c9 v1 c11 c12 c13 c13b c14 c15
        ids [THEN conjunct1] ids [THEN conjunct2] wfc ro3 hc ab c20 c21 ro5 lb c24 c25)
qed

text \<open>
  C1, as stated, fails: timer \<open>a\<close> is added with an expiry of two seconds and gets a
  task; timer \<open>b\<close> is added after it with an expiry of one second and gets a task
  too. Both pending TimerInfos then have a \<open>TaskID\<close> other than the empty sentinel,
  in whichever order the second call ranges over the map.
\<close>

theorem earliest_only_counterexample:
  "\<not> isl (AddUserTimers [call_a, call_b] (tb_new, ms_empty))
   \<and> map_option ExpiryTime (pendingTimerInfoIDs
         (snd (projr (AddUserTimers [call_a, call_b] (tb_new, ms_empty)))) ''a'') = Some 2000000000
   \<and> map_option ExpiryTime (pendingTimerInfoIDs
         (snd (projr (AddUserTimers [call_a, call_b] (tb_new, ms_empty)))) ''b'') = Some 1000000000
   \<and> map_option TaskID (pendingTimerInfoIDs
         (snd (projr (AddUserTimers [call_a, call_b] (tb_new, ms_empty)))) ''a'') = Some 1946157057
   \<and> map_option TaskID (pendingTimerInfoIDs
         (snd (projr (AddUserTimers [call_a, call_b] (tb_new, ms_empty)))) ''b'') = Some 939524098
   \<and> \<not> isl (AddUserTimers [call_a, call_b'] (tb_new, ms_empty))
   \<and> map_option TaskID (pendingTimerInfoIDs
         (snd (projr (AddUserTimers [call_a, call_b'] (tb_new, ms_empty)))) ''a'') = Some 1946157057
   \<and> map_option TaskID (pendingTimerInfoIDs
         (snd (projr (AddUserTimers [call_a, call_b'] (tb_new, ms_empty)))) ''b'') = Some 939524098
   \<and> (1946157057 :: int64) \<noteq> emptyTimerID \<and> (939524098 :: int64) \<noteq> emptyTimerID"
  by code_simp

section \<open>Properties of the mutable state store\<close>

text \<open>
  C4, as amended. For a stored execution and a call of \<open>updateWorkflowExecution\<close>
  that supplies no RangeID or the shard's current RangeID, the write is accepted if
  and only if the stored \<open>nextEventID\<close> equals \<open>conditionNextEventID\<close>; when they
  differ the call fails with \<open>ConditionFailed\<close> and the whole store is unchanged.
\<close>

theorem update_condition:
  assumes "executions st (WorkflowID (newInfo req), RunID (newInfo req)) = Some stored"
    and "rangeID req = None \<or> rangeID req = Some (shardRangeID st)"
  shows "(fst (updateWorkflowExecution req now st) = Inr ()
           \<longleftrightarrow> NextEventID stored = conditionNextEventID req)
    \<and> (NextEventID stored = conditionNextEventID req
           \<longrightarrow> updateWorkflowExecution req now st = (Inr (), applyUpdate req now st))
    \<and> (NextEventID stored \<noteq> conditionNextEventID req
           \<longrightarrow> updateWorkflowExecution req now st = (Inl ConditionFailed, st))"
  using assms by (auto simp add: updateWorkflowExecution_def rangeIDStale_def)

theorem update_condition_witness:
  "executions exStore (WorkflowID (newInfo (exUpdate 3 None)), RunID (newInfo (exUpdate 3 None)))
     = Some exInfo
   \<and> rangeID (exUpdate 3 None) = None
   \<and> updateWorkflowExecution (exUpdate 3 None) 1 exStore = (Inl ConditionFailed, exStore)
   \<and> fst (updateWorkflowExecution (exUpdate 5 (Some 7)) 1 exStore) = Inr ()"
proof -
  have s3: "executions exStore
      (WorkflowID (newInfo (exUpdate 3 None)), RunID (newInfo (exUpdate 3 None))) = Some exInfo"
    and s5: "executions exStore
      (WorkflowID (newInfo (exUpdate 5 (Some 7))), RunID (newInfo (exUpdate 5 (Some 7)))) = Some exInfo"
    by (simp_all add: exStore_def exUpdate_def exInfo_def)
  have r3: "rangeID (exUpdate 3 None) = None \<or> rangeID (exUpdate 3 None) = Some (shardRangeID exStore)"
    and r5: "rangeID (exUpdate 5 (Some 7)) = None
      \<or> rangeID (exUpdate 5 (Some 7)) = Some (shardRangeID exStore)"
    by (simp_all add: exUpdate_def exStore_def)
  have c3: "NextEventID exInfo \<noteq> conditionNextEventID (exUpdate 3 None)"
    and c5: "NextEventID exInfo = conditionNextEventID (exUpdate 5 (Some 7))"
    by (simp_all add: exInfo_def exUpdate_def)
  have n: "rangeID (exUpdate 3 None) = None" by (simp add: exUpdate_def)
  show ?thesis
    using update_condition [OF s3 r3, of 1] update_condition [OF s5 r5, of 1] s3 c3 c5 n
    by blast
qed

text \<open>
  C4, as stated, fails: the stored \<open>nextEventID\<close> is 5 and the update carries the
  condition 5, but it presents the RangeID 12345 while the shard's RangeID is 7; the
  write is not accepted, it fails with \<open>ShardOwnershipLost\<close>.
\<close>

theorem update_condition_counterexample:
  "executions exStore
      (WorkflowID (newInfo (exUpdate 5 (Some 12345))), RunID (newInfo (exUpdate 5 (Some 12345))))
     = Some exInfo
   \<and> NextEventID exInfo = conditionNextEventID (exUpdate 5 (Some 12345))
   \<and> fst (updateWorkflowExecution (exUpdate 5 (Some 12345)) 1 exStore) = Inl ShardOwnershipLost
   \<and> fst (updateWorkflowExecution (exUpdate 5 (Some 12345)) 1 exStore) \<noteq> Inr ()"
  by (simp add: updateWorkflowExecution_def rangeIDStale_def exStore_def exUpdate_def exInfo_def)

text \<open>
  C5. A create or an update that presents a RangeID other than the shard's current
  RangeID fails with \<open>ShardOwnershipLost\<close> and leaves the whole store unchanged,
  whatever its \<open>nextEventID\<close> condition is and whether or not the execution exists.
\<close>

theorem fencing_priority:
  "(rangeID req = Some r \<and> r \<noteq> shardRangeID st
      \<longrightarrow> updateWorkflowExecution req now st = (Inl ShardOwnershipLost, st))
   \<and> (createRangeID creq = Some r \<and> r \<noteq> shardRangeID st
      \<longrightarrow> createWorkflowExecution creq now st = (Inl ShardOwnershipLost, st))"
  by (simp add: updateWorkflowExecution_def createWorkflowExecution_def rangeIDStale_def)

theorem fencing_priority_witness:
  "updateWorkflowExecution (exUpdate 5 (Some 12345)) 1 exStore = (Inl ShardOwnershipLost, exStore)
   \<and> updateWorkflowExecution (exUpdate 3 (Some 12345)) 1 exStore = (Inl ShardOwnershipLost, exStore)
   \<and> createWorkflowExecution (exCreate (Some 6)) 1 exStore = (Inl ShardOwnershipLost, exStore)"
proof -
  have u5: "rangeID (exUpdate 5 (Some 12345)) = Some 12345 \<and> 12345 \<noteq> shardRangeID exStore"
    and u3: "rangeID (exUpdate 3 (Some 12345)) = Some 12345 \<and> 12345 \<noteq> shardRangeID exStore"
    and c: "createRangeID (exCreate (Some 6)) = Some 6 \<and> 6 \<noteq> shardRangeID exStore"
    by (simp_all add: exUpdate_def exCreate_def exStore_def)
  show ?thesis
    using fencing_priority [of "exUpdate 5 (Some 12345)" 12345 exStore 1 "exCreate (Some 6)"]
      fencing_priority [of "exUpdate 3 (Some 12345)" 12345 exStore 1 "exCreate (Some 6)"]
      fencing_priority [of "exUpdate 3 (Some 12345)" 6 exStore 1 "exCreate (Some 6)"]
      u5 u3 c
    by blast
qed

end
